theory Spec2Isabelle
  imports Complex_Main "HOL-Library.AList"
begin

section \<open>The observations class of the diagnostics framework (\<open>lib/adf_obs.py\<close>)\<close>

text \<open>
  \<open>AdfObs.__init__\<close> reads a handful of configuration values, loads the table of variable
  defaults from a YAML file and, when the run compares the model with observations, walks
  over the requested variables and records for each one the observation file it finds.
  The model below follows the constructor statement by statement. Everything the
  constructor takes from outside (the configuration, the YAML loader, the file system)
  is an argument; every exception is a value \<open>Inl e\<close>.
\<close>

subsection \<open>Paths (\<open>pathlib\<close>, POSIX flavour)\<close>

text \<open>
  A path is kept the way \<open>pathlib\<close> keeps it once parsed: the root (\<open>''''\<close>, \<open>''/''\<close> or
  \<open>''//''\<close>) and the components after the root. POSIX paths have no drive.
\<close>

record path =
  path_root :: string
  path_tail :: "string list"

text \<open>\<open>str.split('/')\<close>.\<close>

primrec split_sep :: "string \<Rightarrow> string list" where
  "split_sep [] = [[]]"
| "split_sep (c # cs) =
     (if c = CHR ''/'' then [] # split_sep cs
      else (case split_sep cs of [] \<Rightarrow> [[c]] | w # ws \<Rightarrow> (c # w) # ws))"

text \<open>\<open>posixpath.splitroot\<close> without the (always empty) drive.\<close>

definition splitroot :: "string \<Rightarrow> string \<times> string" where
  "splitroot p =
     (if take 1 p \<noteq> ''/'' then ('''', p)
      else if take 1 (drop 1 p) \<noteq> ''/'' \<or> take 1 (drop 2 p) = ''/'' then (''/'', drop 1 p)
      else (''//'', drop 2 p))"

text \<open>\<open>Path(s)\<close> for a string \<open>s\<close>: empty components and \<open>.\<close> are dropped.\<close>

definition parse_path :: "string \<Rightarrow> path" where
  "parse_path s =
     (case splitroot s of (r, rel) \<Rightarrow>
        \<lparr>path_root = r, path_tail = filter (\<lambda>x. x \<noteq> [] \<and> x \<noteq> ''.'') (split_sep rel)\<rparr>)"

text \<open>\<open>a / b\<close>: an anchored right operand replaces the left one.\<close>

definition path_join :: "path \<Rightarrow> path \<Rightarrow> path" where
  "path_join a b =
     (if path_root b \<noteq> [] then b
      else \<lparr>path_root = path_root a, path_tail = path_tail a @ path_tail b\<rparr>)"

definition is_absolute :: "path \<Rightarrow> bool" where
  "is_absolute p = (path_root p \<noteq> [])"

text \<open>\<open>p.name\<close>: the last component, or the empty string when there is none.\<close>

definition path_name :: "path \<Rightarrow> string" where
  "path_name p = (if path_tail p = [] then [] else last (path_tail p))"

primrec join_sep :: "string list \<Rightarrow> string" where
  "join_sep [] = []"
| "join_sep (x # xs) = (if xs = [] then x else x @ ''/'' @ join_sep xs)"

text \<open>\<open>str(p)\<close>.\<close>

definition path_str :: "path \<Rightarrow> string" where
  "path_str p =
     (if path_root p = [] \<and> path_tail p = [] then ''.''
      else path_root p @ join_sep (path_tail p))"

subsection \<open>Values loaded from YAML and the Python operations applied to them\<close>

text \<open>
  What \<open>yaml.load(..., Loader=yaml.SafeLoader)\<close> returns: null, booleans, integers,
  floats, strings, sequences and mappings. A mapping is the list of its items in
  insertion order. (Timestamps, binary data, sets and the non-finite floats are left out.)
\<close>

datatype yaml =
    YNull
  | YBool bool
  | YInt int
  | YFloat real
  | YStr string
  | YSeq "yaml list"
  | YMap "(yaml \<times> yaml) list"

datatype error =
    ConfigError string
  | FileError string
  | TypeError
  | KeyError

definition ebind :: "error + 'a \<Rightarrow> ('a \<Rightarrow> error + 'b) \<Rightarrow> error + 'b" where
  "ebind m f = (case m of Inl e \<Rightarrow> Inl e | Inr x \<Rightarrow> f x)"

text \<open>Truth value of an object, as \<open>if x:\<close> and \<open>not x\<close> take it.\<close>

fun truthy :: "yaml \<Rightarrow> bool" where
  "truthy YNull = False"
| "truthy (YBool b) = b"
| "truthy (YInt i) = (i \<noteq> 0)"
| "truthy (YFloat r) = (r \<noteq> 0)"
| "truthy (YStr s) = (s \<noteq> [])"
| "truthy (YSeq xs) = (xs \<noteq> [])"
| "truthy (YMap m) = (m \<noteq> [])"

text \<open>\<open>s in t\<close> for two strings: \<open>s\<close> occurs in \<open>t\<close> as a substring.\<close>

primrec is_substr :: "string \<Rightarrow> string \<Rightarrow> bool" where
  "is_substr s [] = (s = [])"
| "is_substr s (c # cs) = (take (length s) (c # cs) = s \<or> is_substr s cs)"

text \<open>
  \<open>k in x\<close> for a string \<open>k\<close>: key membership in a mapping, element membership in a
  sequence, substring test in a string; the other values are not containers and the
  test raises \<open>TypeError\<close>.
\<close>

fun py_in :: "string \<Rightarrow> yaml \<Rightarrow> error + bool" where
  "py_in k (YMap m) = Inr (map_of m (YStr k) \<noteq> None)"
| "py_in k (YSeq xs) = Inr (YStr k \<in> set xs)"
| "py_in k (YStr s) = Inr (is_substr k s)"
| "py_in k _ = Inl TypeError"

text \<open>
  \<open>x[k]\<close> for a string \<open>k\<close>: only a mapping can be indexed by a string.
\<close>

fun py_getitem :: "yaml \<Rightarrow> string \<Rightarrow> error + yaml" where
  "py_getitem (YMap m) k = (case map_of m (YStr k) of None \<Rightarrow> Inl KeyError | Some v \<Rightarrow> Inr v)"
| "py_getitem _ k = Inl TypeError"

subsection \<open>Configuration, environment and the object built\<close>

text \<open>
  The configuration reader (\<open>AdfConfig\<close>) is not part of this file. Its values are taken
  as the constructor receives them after template expansion: the \<open>diag_basic_info\<close>
  section with its four entries, and the top-level \<open>diag_var_list\<close>. Both are read with
  \<open>required=True\<close>, so each may be missing.
\<close>

record basic_info =
  cfg_use_defaults :: bool
  cfg_custom_defaults :: "string option"
  cfg_compare_obs :: bool
  cfg_obs_data_loc :: "string option"

record config =
  cfg_diag_basic_info :: "basic_info option"
  cfg_diag_var_list :: "string list option"

text \<open>
  The environment: the directory of the module, what opening and parsing a YAML file
  gives (by file name), and which paths are regular files.
\<close>

record env =
  adf_lib_dir :: path
  load_yaml :: "string \<Rightarrow> error + yaml"
  is_file :: "path \<Rightarrow> bool"

record resolved =
  obs_file :: path
  obs_name :: yaml
  obs_var :: yaml

text \<open>
  The object: its five private attributes, and the effects of the constructor, namely the
  messages handed to \<open>debug_log\<close>, the strings printed, and the paths tested with
  \<open>is_file\<close>, each in order. The dictionary \<open>__var_obs_dict\<close> is the list of its items in
  insertion order; \<open>AList.update\<close> overwrites a key in place and appends a new one.
\<close>

record adf_obs =
  use_defaults :: bool
  variable_defaults :: yaml
  diag_var_list :: "string list"
  compare_obs :: bool
  var_obs_dict :: "(string \<times> resolved) list"
  debug_log :: "string list"
  printed :: "string list"
  is_file_calls :: "path list"

subsection \<open>The constructor\<close>

text \<open>The name of the defaults file: the custom one, or the bundled one beside the module.\<close>

definition defaults_file :: "env \<Rightarrow> basic_info \<Rightarrow> string" where
  "defaults_file ev bi =
     (case cfg_custom_defaults bi of
        None \<Rightarrow> path_str (path_join (adf_lib_dir ev) (parse_path ''adf_variable_defaults.yaml''))
      | Some f \<Rightarrow> f)"

text \<open>
  The search for the file of one variable: the path as given, then, if that is not a file and
  \<open>obs_data_loc\<close> is set (neither \<open>None\<close> nor empty), \<open>obs_data_loc\<close> joined with it.
  Returns \<open>found\<close>, the final \<open>obs_file_path\<close> and the paths tested.
\<close>

definition find_obs_file :: "(path \<Rightarrow> bool) \<Rightarrow> string option \<Rightarrow> path \<Rightarrow> bool \<times> path \<times> path list" where
  "find_obs_file isf loc p0 =
     (if \<not> isf p0 then
        (case loc of
           None \<Rightarrow> (False, p0, [p0])
         | Some d \<Rightarrow>
             if d \<noteq> [] then
               (let p1 = path_join (parse_path d) p0 in (isf p1, p1, [p0, p1]))
             else (False, p0, [p0]))
      else (True, p0, [p0]))"

definition msg_not_in_defaults :: "string \<Rightarrow> string \<Rightarrow> string" where
  "msg_not_in_defaults var dfile =
     ''Variable '' @ [CHR 0x27] @ var @ [CHR 0x27] @ '' not found in variable defaults file: `'' @ dfile @ ''`''"

definition msg_no_obs_file :: "string \<Rightarrow> string" where
  "msg_no_obs_file var =
     ''No observations file was listed for variable '' @ [CHR 0x27] @ var @ [CHR 0x27] @ ''.''"

definition msg_not_found :: "string \<Rightarrow> string \<Rightarrow> string" where
  "msg_not_found f var =
     ''Unable to find obs file '' @ [CHR 0x27] @ f @ [CHR 0x27] @ '' for variable '' @ [CHR 0x27] @ var @ [CHR 0x27] @ ''.''"

definition wmsg :: string where
  "wmsg = ''!!!!WARNING!!!!'' @ [CHR 0x0A]
        @ ''No observations found for any variables, but this is a model vs obs run!'' @ [CHR 0x0A]
        @ ''ADF will still calculate time series and climatologies if requested,''
        @ '' but will stop there.'' @ [CHR 0x0A]
        @ ''If this result is unexpected, then run with '' @ [CHR 0x27] @ ''--debug'' @ [CHR 0x27]
        @ '' and check the log for messages.'' @ [CHR 0x0A]
        @ ''!!!!!!!!!!!!!!!'' @ [CHR 0x0A]"

text \<open>The body of the loop over the variable list, for one variable.\<close>

definition resolve_var :: "env \<Rightarrow> string option \<Rightarrow> string \<Rightarrow> yaml \<Rightarrow> string \<Rightarrow> adf_obs \<Rightarrow> error + adf_obs" where
  "resolve_var ev loc dfile vdefs var st =
     ebind (py_in var vdefs) (\<lambda>known.
       if known then
         ebind (py_getitem vdefs var) (\<lambda>default_var_dict.
         ebind (py_in ''obs_file'' default_var_dict) (\<lambda>has_file.
           if has_file then
             ebind (py_getitem default_var_dict ''obs_file'') (\<lambda>f.
               case f of
                 YStr s \<Rightarrow>
                   (case find_obs_file (is_file ev) loc (parse_path s) of
                      (found, obs_file_path, tested) \<Rightarrow>
                        let st1 = st\<lparr>is_file_calls := is_file_calls st @ tested\<rparr> in
                        if found then
                          ebind (py_in ''obs_name'' default_var_dict) (\<lambda>has_name.
                          ebind (if has_name then py_getitem default_var_dict ''obs_name''
                                 else Inr (YStr (path_name obs_file_path))) (\<lambda>name.
                          ebind (py_in ''obs_var_name'' default_var_dict) (\<lambda>has_var.
                          ebind (if has_var then py_getitem default_var_dict ''obs_var_name''
                                 else Inr (YStr var)) (\<lambda>obs_var_name.
                            Inr (st1\<lparr>var_obs_dict :=
                                   AList.update var
                                     \<lparr>obs_file = obs_file_path, obs_name = name, obs_var = obs_var_name\<rparr>
                                     (var_obs_dict st1)\<rparr>)))))
                        else Inr (st1\<lparr>debug_log := debug_log st1 @ [msg_not_found s var]\<rparr>))
               | _ \<Rightarrow> Inl TypeError)
           else Inr (st\<lparr>debug_log := debug_log st @ [msg_no_obs_file var]\<rparr>)))
       else Inr (st\<lparr>debug_log := debug_log st @ [msg_not_in_defaults var dfile]\<rparr>))"

text \<open>The loop: an exception in one iteration ends it.\<close>

fun resolve_loop :: "env \<Rightarrow> string option \<Rightarrow> string \<Rightarrow> yaml \<Rightarrow> string list \<Rightarrow> adf_obs \<Rightarrow> error + adf_obs" where
  "resolve_loop ev loc dfile vdefs [] st = Inr st"
| "resolve_loop ev loc dfile vdefs (var # vars) st =
     ebind (resolve_var ev loc dfile vdefs var st) (resolve_loop ev loc dfile vdefs vars)"

text \<open>
  The object once the four configuration values are stored and \<open>__var_obs_dict\<close> is
  initialised: nothing logged, printed or tested yet.
\<close>

definition initial :: "basic_info \<Rightarrow> yaml \<Rightarrow> string list \<Rightarrow> adf_obs" where
  "initial bi vd vars =
     \<lparr>use_defaults = cfg_use_defaults bi, variable_defaults = vd,
      diag_var_list = vars, compare_obs = cfg_compare_obs bi,
      var_obs_dict = [], debug_log = [], printed = [], is_file_calls = []\<rparr>"

text \<open>\<open>AdfObs.__init__\<close>.\<close>

definition init :: "env \<Rightarrow> config \<Rightarrow> error + adf_obs" where
  "init ev cfg =
     (case cfg_diag_basic_info cfg of
        None \<Rightarrow> Inl (ConfigError ''diag_basic_info'')
      | Some bi \<Rightarrow>
          ebind (if cfg_use_defaults bi then load_yaml ev (defaults_file ev bi)
                 else Inr (YMap [])) (\<lambda>vd.
            case cfg_diag_var_list cfg of
              None \<Rightarrow> Inl (ConfigError ''diag_var_list'')
            | Some vars \<Rightarrow>
                let self = initial bi vd vars in
                if \<not> cfg_compare_obs bi then Inr self
                else
                  ebind (if \<not> truthy vd then load_yaml ev (defaults_file ev bi)
                         else Inr vd) (\<lambda>vdefs.
                  ebind (resolve_loop ev (cfg_obs_data_loc bi) (defaults_file ev bi) vdefs vars self)
                    (\<lambda>self'.
                      Inr (if var_obs_dict self' = []
                           then self'\<lparr>printed := printed self' @ [wmsg]\<rparr>
                           else self')))))"

subsection \<open>The accessors and the objects they return\<close>

text \<open>
  Each of the five properties returns \<open>copy.copy\<close> of a private attribute. What a caller
  can do to the object through the value returned depends on which Python objects are
  shared, so for the accessors the attributes are laid out in a store: a list of the
  mutable objects (dictionaries and lists), addressed by position. A value held in a
  container or an attribute is an immutable value, a path, or a reference into the store.
\<close>

datatype pyval = Imm yaml | PathV path | Ref nat

datatype pyobj = Dict "(yaml \<times> pyval) list" | PyList "pyval list"

type_synonym store = "pyobj list"

text \<open>
  A loaded YAML value in the store: every mapping and every sequence is an object of its
  own, allocated after its components. (YAML aliases, which would put one object at two
  places of the table, are left out.)
\<close>

fun alloc :: "yaml \<Rightarrow> store \<Rightarrow> pyval \<times> store"
  and alloc_list :: "yaml list \<Rightarrow> store \<Rightarrow> pyval list \<times> store"
  and alloc_items :: "(yaml \<times> yaml) list \<Rightarrow> store \<Rightarrow> (yaml \<times> pyval) list \<times> store" where
  "alloc (YMap m) h = (case alloc_items m h of (items, h') \<Rightarrow> (Ref (length h'), h' @ [Dict items]))"
| "alloc (YSeq xs) h = (case alloc_list xs h of (vs, h') \<Rightarrow> (Ref (length h'), h' @ [PyList vs]))"
| "alloc y h = (Imm y, h)"
| "alloc_list [] h = ([], h)"
| "alloc_list (x # xs) h =
     (case alloc x h of (v, h1) \<Rightarrow>
        (case alloc_list xs h1 of (vs, h2) \<Rightarrow> (v # vs, h2)))"
| "alloc_items [] h = ([], h)"
| "alloc_items ((k, x) # m) h =
     (case alloc x h of (v, h1) \<Rightarrow>
        (case alloc_items m h1 of (items, h2) \<Rightarrow> ((k, v) # items, h2)))"

text \<open>
  \<open>x[k]\<close> and \<open>x[k] = v\<close> for a string \<open>k\<close>. Both are defined on a dictionary; a list takes
  integers and slices only, and a string, a number, a path or \<open>None\<close> cannot be indexed
  by a string or assigned to, so these raise \<open>TypeError\<close>.
\<close>

definition store_getitem :: "pyval \<Rightarrow> string \<Rightarrow> store \<Rightarrow> error + pyval" where
  "store_getitem x k h =
     (case x of
        Ref a \<Rightarrow>
          if a < length h then
            (case h ! a of
               Dict items \<Rightarrow>
                 (case map_of items (YStr k) of None \<Rightarrow> Inl KeyError | Some v \<Rightarrow> Inr v)
             | PyList xs \<Rightarrow> Inl TypeError)
          else Inl TypeError
      | _ \<Rightarrow> Inl TypeError)"

definition store_setitem :: "pyval \<Rightarrow> string \<Rightarrow> pyval \<Rightarrow> store \<Rightarrow> error + store" where
  "store_setitem x k v h =
     (case x of
        Ref a \<Rightarrow>
          if a < length h then
            (case h ! a of
               Dict items \<Rightarrow> Inr (h[a := Dict (AList.update (YStr k) v items)])
             | PyList xs \<Rightarrow> Inl TypeError)
          else Inl TypeError
      | _ \<Rightarrow> Inl TypeError)"

text \<open>
  The value the loop puts under \<open>obs_name\<close> or \<open>obs_var\<close> for a variable. When the loop ran
  on the table held by the object (\<open>tbl\<close> is that table) and the record of the variable
  has the key, the value is \<open>default_var_dict[key]\<close>, the very object the table holds, not
  a copy of it. Otherwise it is the default, a new string, or comes from the table that
  was local to the constructor, and is allocated here.
\<close>

definition record_value :: "pyval option \<Rightarrow> string \<Rightarrow> string \<Rightarrow> yaml \<Rightarrow> store \<Rightarrow> pyval \<times> store" where
  "record_value tbl var key y h =
     (case tbl of
        None \<Rightarrow> alloc y h
      | Some t \<Rightarrow>
          (case store_getitem t var h of
             Inl e \<Rightarrow> alloc y h
           | Inr default_var_dict \<Rightarrow>
               (case store_getitem default_var_dict key h of
                  Inl e \<Rightarrow> alloc y h
                | Inr x \<Rightarrow> (x, h))))"

text \<open>
  The entries of \<open>__var_obs_dict\<close>: the loop creates one new dictionary with the keys
  \<open>obs_file\<close>, \<open>obs_name\<close> and \<open>obs_var\<close> per accepted variable.
\<close>

fun store_entries :: "pyval option \<Rightarrow> (string \<times> resolved) list \<Rightarrow> store \<Rightarrow> (yaml \<times> pyval) list \<times> store" where
  "store_entries tbl [] h = ([], h)"
| "store_entries tbl ((var, r) # es) h =
     (case record_value tbl var ''obs_name'' (obs_name r) h of (name, h1) \<Rightarrow>
      (case record_value tbl var ''obs_var_name'' (obs_var r) h1 of (ovar, h2) \<Rightarrow>
      (case store_entries tbl es
              (h2 @ [Dict [(YStr ''obs_file'', PathV (obs_file r)),
                           (YStr ''obs_name'', name), (YStr ''obs_var'', ovar)]]) of
         (items, h3) \<Rightarrow> ((YStr var, Ref (length h2)) # items, h3))))"

record adf_obs_attrs =
  attr_use_defaults :: pyval
  attr_variable_defaults :: pyval
  attr_diag_var_list :: pyval
  attr_compare_obs :: pyval
  attr_var_obs_dict :: pyval

text \<open>
  The five attributes of a constructed object, in the store. The loop ran on the table
  held in \<open>__variable_defaults\<close> when \<open>use_defaults\<close> is set and that table is not empty;
  otherwise it ran on a table of its own (lines 108 to 119).
\<close>

definition store_obj :: "adf_obs \<Rightarrow> store \<Rightarrow> adf_obs_attrs \<times> store" where
  "store_obj st h =
     (case alloc (variable_defaults st) h of (vd, h1) \<Rightarrow>
      (case alloc (YSeq (map YStr (diag_var_list st))) h1 of (vl, h2) \<Rightarrow>
      (case store_entries
              (if use_defaults st \<and> truthy (variable_defaults st) then Some vd else None)
              (var_obs_dict st) h2 of (items, h3) \<Rightarrow>
        (\<lparr>attr_use_defaults = Imm (YBool (use_defaults st)),
          attr_variable_defaults = vd,
          attr_diag_var_list = vl,
          attr_compare_obs = Imm (YBool (compare_obs st)),
          attr_var_obs_dict = Ref (length h3)\<rparr>,
         h3 @ [Dict items]))))"

text \<open>
  \<open>copy.copy\<close>: a new dictionary or list with the same items, that is, holding the same
  references; an immutable value is returned as it is.
\<close>

definition copy_copy :: "pyval \<Rightarrow> store \<Rightarrow> pyval \<times> store" where
  "copy_copy v h =
     (case v of
        Ref a \<Rightarrow> if a < length h then (Ref (length h), h @ [h ! a]) else (v, h)
      | _ \<Rightarrow> (v, h))"

definition variable_defaults_property :: "adf_obs_attrs \<Rightarrow> store \<Rightarrow> pyval \<times> store" where
  "variable_defaults_property self h = copy_copy (attr_variable_defaults self) h"

definition use_defaults_property :: "adf_obs_attrs \<Rightarrow> store \<Rightarrow> pyval \<times> store" where
  "use_defaults_property self h = copy_copy (attr_use_defaults self) h"

definition compare_obs_property :: "adf_obs_attrs \<Rightarrow> store \<Rightarrow> pyval \<times> store" where
  "compare_obs_property self h = copy_copy (attr_compare_obs self) h"

definition diag_var_list_property :: "adf_obs_attrs \<Rightarrow> store \<Rightarrow> pyval \<times> store" where
  "diag_var_list_property self h = copy_copy (attr_diag_var_list self) h"

definition var_obs_dict_property :: "adf_obs_attrs \<Rightarrow> store \<Rightarrow> pyval \<times> store" where
  "var_obs_dict_property self h = copy_copy (attr_var_obs_dict self) h"

text \<open>
  The content of a value, read through the store down to a given depth: what the object
  would show if its attribute were printed.
\<close>

datatype view = VImm yaml | VPath path | VDict "(yaml \<times> view) list" | VList "view list" | VCut

primrec view_of :: "nat \<Rightarrow> store \<Rightarrow> pyval \<Rightarrow> view" where
  "view_of 0 h v = (case v of Imm y \<Rightarrow> VImm y | PathV p \<Rightarrow> VPath p | Ref a \<Rightarrow> VCut)"
| "view_of (Suc n) h v =
     (case v of
        Imm y \<Rightarrow> VImm y
      | PathV p \<Rightarrow> VPath p
      | Ref a \<Rightarrow>
          if a < length h then
            (case h ! a of
               Dict items \<Rightarrow> VDict (map (\<lambda>(k, x). (k, view_of n h x)) items)
             | PyList xs \<Rightarrow> VList (map (view_of n h) xs))
          else VCut)"

subsection \<open>Notions used to state and prove the properties\<close>

text \<open>
  The entry the loop stores for a variable \<open>var\<close> whose record is the mapping \<open>rec\<close>, once the
  path \<open>p\<close> has been found.
\<close>

definition entry :: "path \<Rightarrow> (yaml \<times> yaml) list \<Rightarrow> string \<Rightarrow> resolved" where
  "entry p rec var =
     \<lparr>obs_file = p,
      obs_name = (case map_of rec (YStr ''obs_name'') of None \<Rightarrow> YStr (path_name p) | Some x \<Rightarrow> x),
      obs_var = (case map_of rec (YStr ''obs_var_name'') of None \<Rightarrow> YStr var | Some x \<Rightarrow> x)\<rparr>"

text \<open>
  What one iteration adds to the dictionary, as a function of the variable alone: the
  entry, or nothing when the variable is skipped.
\<close>

definition var_entry :: "env \<Rightarrow> string option \<Rightarrow> yaml \<Rightarrow> string \<Rightarrow> resolved option" where
  "var_entry ev loc vdefs var =
     (case vdefs of
        YMap m \<Rightarrow>
          (case map_of m (YStr var) of
             Some (YMap rec) \<Rightarrow>
               (case map_of rec (YStr ''obs_file'') of
                  Some (YStr s) \<Rightarrow>
                    (case find_obs_file (is_file ev) loc (parse_path s) of
                       (found, p, tested) \<Rightarrow> if found then Some (entry p rec var) else None)
                | _ \<Rightarrow> None)
           | _ \<Rightarrow> None)
      | _ \<Rightarrow> None)"

definition add_entry :: "env \<Rightarrow> string option \<Rightarrow> yaml \<Rightarrow> string \<Rightarrow> (string \<times> resolved) list \<Rightarrow> (string \<times> resolved) list" where
  "add_entry ev loc vdefs var d =
     (case var_entry ev loc vdefs var of None \<Rightarrow> d | Some r \<Rightarrow> AList.update var r d)"

text \<open>
  The paths one iteration tests with \<open>is_file\<close>, as a function of the variable alone: none
  when the variable is skipped before the search.
\<close>

definition var_tests :: "env \<Rightarrow> string option \<Rightarrow> yaml \<Rightarrow> string \<Rightarrow> path list" where
  "var_tests ev loc vdefs var =
     (case vdefs of
        YMap m \<Rightarrow>
          (case map_of m (YStr var) of
             Some (YMap rec) \<Rightarrow>
               (case map_of rec (YStr ''obs_file'') of
                  Some (YStr s) \<Rightarrow>
                    (case find_obs_file (is_file ev) loc (parse_path s) of
                       (found, p, tested) \<Rightarrow> tested)
                | _ \<Rightarrow> [])
           | _ \<Rightarrow> [])
      | _ \<Rightarrow> [])"

text \<open>The elements of a list in the order of their first occurrence.\<close>

primrec first_occurrences :: "'a list \<Rightarrow> 'a list" where
  "first_occurrences [] = []"
| "first_occurrences (x # xs) = x # filter (\<lambda>y. y \<noteq> x) (first_occurrences xs)"

subsection \<open>Example inputs\<close>

text \<open>
  A defaults table, a file system and a configuration on which the properties below are
  also evaluated. \<open>TS\<close> and \<open>U\<close> have their file at the place given, \<open>TA\<close> only under the
  directory \<open>/data\<close>, \<open>T\<close> at a place given relative to the working directory, and \<open>PS\<close>
  nowhere; the entries of \<open>Q\<close>, \<open>V\<close> and \<open>W\<close> are not mappings.
\<close>

definition ex_table :: "(yaml \<times> yaml) list" where
  "ex_table =
     [(YStr ''TS'', YMap [(YStr ''obs_file'', YStr ''/obs/TS.nc'')]),
      (YStr ''TA'', YMap [(YStr ''obs_file'', YStr ''ta.nc'')]),
      (YStr ''U'', YMap [(YStr ''obs_file'', YStr ''/obs/U.nc''),
                         (YStr ''obs_name'', YStr ''ERA5''),
                         (YStr ''obs_var_name'', YStr ''u'')]),
      (YStr ''T'', YMap [(YStr ''obs_file'', YStr ''rel/T.nc'')]),
      (YStr ''PS'', YMap [(YStr ''obs_file'', YStr ''/obs/PS.nc'')]),
      (YStr ''Q'', YNull),
      (YStr ''V'', YSeq []),
      (YStr ''W'', YStr ''none'')]"

definition ex_defaults :: yaml where
  "ex_defaults = YMap ex_table"

definition ex_is_file :: "path \<Rightarrow> bool" where
  "ex_is_file p =
     (p = parse_path ''/obs/TS.nc'' \<or> p = parse_path ''/data/ta.nc''
      \<or> p = parse_path ''/obs/U.nc'' \<or> p = parse_path ''rel/T.nc'')"

definition ex_env :: env where
  "ex_env =
     \<lparr>adf_lib_dir = parse_path ''/adf/lib'',
      load_yaml = (\<lambda>f. if f = ''/adf/lib/adf_variable_defaults.yaml'' then Inr ex_defaults
                        else Inl (FileError f)),
      is_file = ex_is_file\<rparr>"

definition ex_basic_info :: "bool \<Rightarrow> bool \<Rightarrow> string option \<Rightarrow> basic_info" where
  "ex_basic_info use cmp loc =
     \<lparr>cfg_use_defaults = use, cfg_custom_defaults = None, cfg_compare_obs = cmp,
      cfg_obs_data_loc = loc\<rparr>"

definition ex_config :: "bool \<Rightarrow> bool \<Rightarrow> string option \<Rightarrow> string list \<Rightarrow> config" where
  "ex_config use cmp loc vars =
     \<lparr>cfg_diag_basic_info = Some (ex_basic_info use cmp loc), cfg_diag_var_list = Some vars\<rparr>"

text \<open>The entry of \<open>TS\<close> in \<open>__var_obs_dict\<close> as read through the store, with a given \<open>obs_name\<close>.\<close>

definition ts_record :: "string \<Rightarrow> view" where
  "ts_record name =
     VDict [(YStr ''obs_file'', VPath (parse_path ''/obs/TS.nc'')),
            (YStr ''obs_name'', VImm (YStr name)), (YStr ''obs_var'', VImm (YStr ''TS''))]"

section \<open>Properties\<close>

subsection \<open>The Python operations\<close>

lemma py_getitem_Inr:
  "py_getitem y k = Inr v \<Longrightarrow> \<exists>m. y = YMap m \<and> map_of m (YStr k) = Some v"
  by (cases y) (auto split: option.splits)

subsection \<open>One iteration\<close>

lemma resolve_var_mapping:
  assumes "map_of m (YStr var) = Some (YMap rec)"
    and "map_of rec (YStr ''obs_file'') = Some (YStr s)"
  shows "resolve_var ev loc dfile (YMap m) var st =
     (case find_obs_file (is_file ev) loc (parse_path s) of
        (found, p, tested) \<Rightarrow>
          Inr (if found
               then st\<lparr>is_file_calls := is_file_calls st @ tested,
                       var_obs_dict := AList.update var (entry p rec var) (var_obs_dict st)\<rparr>
               else st\<lparr>is_file_calls := is_file_calls st @ tested,
                       debug_log := debug_log st @ [msg_not_found s var]\<rparr>))"
  using assms
  by (auto simp: resolve_var_def ebind_def entry_def Let_def split: prod.splits option.splits)

lemma resolve_var_other:
  assumes "resolve_var ev loc dfile vdefs var st = Inr st'"
    and "\<not> (\<exists>m rec s. vdefs = YMap m \<and> map_of m (YStr var) = Some (YMap rec)
        \<and> map_of rec (YStr ''obs_file'') = Some (YStr s))"
  shows "var_obs_dict st' = var_obs_dict st"
proof (cases vdefs)
  case (YMap m)
  show ?thesis
  proof (cases "map_of m (YStr var)")
    case None
    with YMap assms(1) show ?thesis
      by (auto simp: resolve_var_def ebind_def)
  next
    case (Some y)
    with YMap assms show ?thesis
      by (cases y)
        (auto simp: resolve_var_def ebind_def split: if_splits option.splits yaml.splits)
  qed
qed (use assms(1) in \<open>auto simp: resolve_var_def ebind_def split: if_splits\<close>)

lemma resolve_var_error:
  assumes "resolve_var ev loc dfile vdefs var st = Inl e"
  shows "e = TypeError"
proof (cases vdefs)
  case (YMap m)
  show ?thesis
  proof (cases "map_of m (YStr var)")
    case None
    with YMap assms show ?thesis
      by (auto simp: resolve_var_def ebind_def)
  next
    case (Some y)
    with YMap assms show ?thesis
      by (cases y)
        (auto simp: resolve_var_def ebind_def Let_def
              split: if_splits option.splits yaml.splits prod.splits)
  qed
qed (use assms in \<open>auto simp: resolve_var_def ebind_def split: if_splits\<close>)

lemma resolve_var_dict:
  assumes "resolve_var ev loc dfile vdefs var st = Inr st'"
  shows "var_obs_dict st' = add_entry ev loc vdefs var (var_obs_dict st)"
proof (cases "\<exists>m rec s. vdefs = YMap m \<and> map_of m (YStr var) = Some (YMap rec)
        \<and> map_of rec (YStr ''obs_file'') = Some (YStr s)")
  case True
  then obtain m rec s where h: "vdefs = YMap m" "map_of m (YStr var) = Some (YMap rec)"
     "map_of rec (YStr ''obs_file'') = Some (YStr s)" by blast
  show ?thesis using assms h
    by (auto simp: resolve_var_mapping [OF h(2,3)] add_entry_def var_entry_def split: prod.splits if_splits)
next
  case False
  then have "var_entry ev loc vdefs var = None"
    by (auto simp: var_entry_def split: yaml.splits option.splits)
  with resolve_var_other [OF assms False] show ?thesis
    by (simp add: add_entry_def)
qed

lemma resolve_var_frame:
  assumes "resolve_var ev loc dfile vdefs var st = Inr st'"
  shows "printed st' = printed st \<and> use_defaults st' = use_defaults st
     \<and> variable_defaults st' = variable_defaults st \<and> diag_var_list st' = diag_var_list st
     \<and> compare_obs st' = compare_obs st"
  using assms
  by (auto simp: resolve_var_def ebind_def Let_def
      split: if_splits sum.splits yaml.splits prod.splits)

lemma resolve_var_log:
  assumes "resolve_var ev loc dfile vdefs var st = Inr st'"
  shows "set (debug_log st') \<subseteq> set (debug_log st) \<union> {m. m \<noteq> wmsg}"
  using assms
  by (auto simp: resolve_var_def ebind_def Let_def wmsg_def msg_not_found_def msg_no_obs_file_def msg_not_in_defaults_def
      split: if_splits sum.splits yaml.splits prod.splits)

subsection \<open>The loop\<close>

lemma resolve_loop_dict:
  "resolve_loop ev loc dfile vdefs vars st = Inr st' \<Longrightarrow>
     var_obs_dict st' = fold (add_entry ev loc vdefs) vars (var_obs_dict st)"
proof (induction vars arbitrary: st)
  case Nil then show ?case by simp
next
  case (Cons v vars)
  then show ?case
    by (auto simp: ebind_def split: sum.splits dest: resolve_var_dict)
qed

lemma resolve_loop_frame:
  "resolve_loop ev loc dfile vdefs vars st = Inr st' \<Longrightarrow>
     printed st' = printed st \<and> use_defaults st' = use_defaults st
     \<and> variable_defaults st' = variable_defaults st \<and> diag_var_list st' = diag_var_list st
     \<and> compare_obs st' = compare_obs st"
proof (induction vars arbitrary: st)
  case Nil then show ?case by simp
next
  case (Cons v vars)
  then show ?case
    by (auto simp: ebind_def split: sum.splits dest: resolve_var_frame)
qed

lemma resolve_loop_log:
  "resolve_loop ev loc dfile vdefs vars st = Inr st' \<Longrightarrow>
     set (debug_log st') \<subseteq> set (debug_log st) \<union> {m. m \<noteq> wmsg}"
proof (induction vars arbitrary: st)
  case Nil then show ?case by simp
next
  case (Cons v vars)
  from Cons.prems obtain st1 where
    a: "resolve_var ev loc dfile vdefs v st = Inr st1" and
    b: "resolve_loop ev loc dfile vdefs vars st1 = Inr st'"
    by (auto simp: ebind_def split: sum.splits)
  from Cons.IH [OF b] resolve_var_log [OF a] show ?case by blast
qed

lemma resolve_loop_error:
  "resolve_loop ev loc dfile vdefs vars st = Inl e \<Longrightarrow> e = TypeError"
proof (induction vars arbitrary: st)
  case Nil then show ?case by simp
next
  case (Cons v vars)
  then show ?case
    by (auto simp: ebind_def split: sum.splits dest: resolve_var_error)
qed

subsection \<open>The keys of the dictionary\<close>

lemma set_first_occurrences [simp]: "set (first_occurrences xs) = set xs"
  by (induction xs) auto

lemma distinct_first_occurrences [simp]: "distinct (first_occurrences xs)"
  by (induction xs) auto

lemma keys_add_entry:
  "map fst (add_entry ev loc vdefs v d) =
     (if var_entry ev loc vdefs v \<noteq> None \<and> v \<notin> fst ` set d then map fst d @ [v] else map fst d)"
  by (auto simp: add_entry_def update_keys split: option.splits)

lemma keyset_add_entry:
  "fst ` set (add_entry ev loc vdefs v d) =
     (if var_entry ev loc vdefs v \<noteq> None then insert v (fst ` set d) else fst ` set d)"
  by (auto simp: add_entry_def dom_update split: option.splits)

lemma keys_fold_add_entry:
  "map fst (fold (add_entry ev loc vdefs) vars d) =
     map fst d @ filter (\<lambda>v. var_entry ev loc vdefs v \<noteq> None \<and> v \<notin> fst ` set d) (first_occurrences vars)"
proof (induction vars arbitrary: d)
  case Nil then show ?case by simp
next
  case (Cons x xs)
  let ?acc = "\<lambda>v. var_entry ev loc vdefs v \<noteq> None"
  show ?case
  proof (cases "?acc x \<and> x \<notin> fst ` set d")
    case True
    have "filter (\<lambda>v. ?acc v \<and> v \<notin> insert x (fst ` set d)) (first_occurrences xs)
        = filter (\<lambda>v. ?acc v \<and> v \<notin> fst ` set d) (filter (\<lambda>y. y \<noteq> x) (first_occurrences xs))"
      by (auto intro: filter_cong)
    with True show ?thesis
      by (simp add: Cons.IH keys_add_entry keyset_add_entry)
  next
    case False
    then have same: "map fst (add_entry ev loc vdefs x d) = map fst d"
      "fst ` set (add_entry ev loc vdefs x d) = fst ` set d"
      by (auto simp: keys_add_entry keyset_add_entry)
    have "filter (\<lambda>v. ?acc v \<and> v \<notin> fst ` set d) (first_occurrences xs)
        = filter (\<lambda>v. ?acc v \<and> v \<notin> fst ` set d) (filter (\<lambda>y. y \<noteq> x) (first_occurrences xs))"
      using False by (auto intro: filter_cong)
    with False same show ?thesis
      by (auto simp: Cons.IH)
  qed
qed

lemma map_of_add_entry:
  "map_of (add_entry ev loc vdefs x d) k =
     (if k = x \<and> var_entry ev loc vdefs x \<noteq> None then var_entry ev loc vdefs x else map_of d k)"
  by (auto simp: add_entry_def update_conv' split: option.splits)

lemma map_of_fold_add_entry:
  "map_of (fold (add_entry ev loc vdefs) vars d) k =
     (if k \<in> set vars \<and> var_entry ev loc vdefs k \<noteq> None then var_entry ev loc vdefs k
      else map_of d k)"
proof (induction vars arbitrary: d)
  case Nil then show ?case by simp
next
  case (Cons x xs)
  show ?case
    by (auto simp: Cons.IH map_of_add_entry)
qed

lemma distinct_keys_fold_add_entry:
  "distinct (map fst d) \<Longrightarrow> distinct (map fst (fold (add_entry ev loc vdefs) vars d))"
  by (auto simp: keys_fold_add_entry)

subsection \<open>The constructor as a whole\<close>

lemma init_no_compare:
  assumes "cfg_diag_basic_info cfg = Some bi" and "\<not> cfg_compare_obs bi"
  shows "init ev cfg =
     ebind (if cfg_use_defaults bi then load_yaml ev (defaults_file ev bi) else Inr (YMap []))
       (\<lambda>vd. case cfg_diag_var_list cfg of
                None \<Rightarrow> Inl (ConfigError ''diag_var_list'')
              | Some vars \<Rightarrow> Inr (initial bi vd vars))"
  using assms
  by (auto simp: init_def ebind_def Let_def split: sum.splits option.splits)

lemma init_compare:
  assumes "init ev cfg = Inr st"
    and "cfg_diag_basic_info cfg = Some bi" and "cfg_compare_obs bi"
  obtains vdefs vars st1 where
    "cfg_diag_var_list cfg = Some vars"
    "load_yaml ev (defaults_file ev bi) = Inr vdefs"
    "resolve_loop ev (cfg_obs_data_loc bi) (defaults_file ev bi) vdefs vars
       (initial bi (if cfg_use_defaults bi then vdefs else YMap []) vars) = Inr st1"
    "st = (if var_obs_dict st1 = [] then st1\<lparr>printed := printed st1 @ [wmsg]\<rparr> else st1)"
  using assms
  by (auto simp: init_def ebind_def Let_def split: sum.splits option.splits if_splits)

lemma init_dict:
  assumes "init ev cfg = Inr st" and "cfg_diag_basic_info cfg = Some bi"
  shows "cfg_diag_var_list cfg = Some (diag_var_list st) \<and>
     (if cfg_compare_obs bi
      then \<exists>vdefs. load_yaml ev (defaults_file ev bi) = Inr vdefs \<and>
             var_obs_dict st =
               fold (add_entry ev (cfg_obs_data_loc bi) vdefs) (diag_var_list st) []
      else var_obs_dict st = [] \<and> is_file_calls st = [] \<and> printed st = [])"
proof (cases "cfg_compare_obs bi")
  case True
  from assms True obtain vdefs vars st1 where h:
    "cfg_diag_var_list cfg = Some vars"
    "load_yaml ev (defaults_file ev bi) = Inr vdefs"
    "resolve_loop ev (cfg_obs_data_loc bi) (defaults_file ev bi) vdefs vars
       (initial bi (if cfg_use_defaults bi then vdefs else YMap []) vars) = Inr st1"
    "st = (if var_obs_dict st1 = [] then st1\<lparr>printed := printed st1 @ [wmsg]\<rparr> else st1)"
    by (rule init_compare)
  from resolve_loop_dict [OF h(3)] resolve_loop_frame [OF h(3)] h(1,2,4) True
  show ?thesis by (auto simp: initial_def)
next
  case False
  with assms show ?thesis
    by (auto simp: init_no_compare initial_def ebind_def split: sum.splits option.splits if_splits)
qed

lemma init_basic_info: "init ev cfg = Inr st \<Longrightarrow> \<exists>bi. cfg_diag_basic_info cfg = Some bi"
  by (auto simp: init_def split: option.splits)

subsection \<open>Keys of the observation dictionary\<close>

text \<open>
  Claim C5. Whenever the constructor returns, the keys of \<open>__var_obs_dict\<close> are among the
  requested variables, no key occurs twice, and the keys come in the order in which the
  variables first occur in \<open>diag_var_list\<close>; a variable listed several times has one entry.
\<close>
theorem catalog_keys_follow_var_list:
  assumes "init ev cfg = Inr st"
  shows "cfg_diag_var_list cfg = Some (diag_var_list st)
     \<and> set (map fst (var_obs_dict st)) \<subseteq> set (diag_var_list st)
     \<and> distinct (map fst (var_obs_dict st))
     \<and> map fst (var_obs_dict st) =
         filter (\<lambda>v. v \<in> set (map fst (var_obs_dict st))) (first_occurrences (diag_var_list st))"
proof -
  from assms obtain bi where bi: "cfg_diag_basic_info cfg = Some bi"
    by (auto dest: init_basic_info)
  note d = init_dict [OF assms bi]
  show ?thesis
  proof (cases "cfg_compare_obs bi")
    case False
    with d show ?thesis by simp
  next
    case True
    with d obtain vdefs where
      v: "var_obs_dict st = fold (add_entry ev (cfg_obs_data_loc bi) vdefs) (diag_var_list st) []"
      by auto
    let ?acc = "\<lambda>v. var_entry ev (cfg_obs_data_loc bi) vdefs v \<noteq> None"
    have keys: "map fst (var_obs_dict st) = filter ?acc (first_occurrences (diag_var_list st))"
      by (simp add: v keys_fold_add_entry)
    have "filter (\<lambda>v. v \<in> set (filter ?acc (first_occurrences (diag_var_list st))))
             (first_occurrences (diag_var_list st))
        = filter ?acc (first_occurrences (diag_var_list st))"
      by (auto intro: filter_cong)
    with keys d show ?thesis by auto
  qed
qed


theorem catalog_keys_follow_var_list_witness:
  "\<exists>st. init ex_env (ex_config True True (Some ''/data'') [''TS'', ''PRECT'', ''TA'', ''TS'']) = Inr st
     \<and> map fst (var_obs_dict st) = [''TS'', ''TA'']
     \<and> (cfg_diag_var_list (ex_config True True (Some ''/data'') [''TS'', ''PRECT'', ''TA'', ''TS''])
           = Some (diag_var_list st)
        \<and> set (map fst (var_obs_dict st)) \<subseteq> set (diag_var_list st)
        \<and> distinct (map fst (var_obs_dict st))
        \<and> map fst (var_obs_dict st) =
            filter (\<lambda>v. v \<in> set (map fst (var_obs_dict st)))
              (first_occurrences (diag_var_list st)))"
proof -
  let ?cfg = "ex_config True True (Some ''/data'') [''TS'', ''PRECT'', ''TA'', ''TS'']"
  have "case init ex_env ?cfg of
          Inr st \<Rightarrow> map fst (var_obs_dict st) = [''TS'', ''TA''] | Inl e \<Rightarrow> False"
    by code_simp
  then obtain st where st: "init ex_env ?cfg = Inr st" "map fst (var_obs_dict st) = [''TS'', ''TA'']"
    by (cases "init ex_env ?cfg") simp_all
  from conjI [OF st(1) conjI [OF st(2) catalog_keys_follow_var_list [OF st(1)]]]
  show ?thesis by (rule exI)
qed

subsection \<open>Entries of the observation dictionary\<close>

lemma find_obs_file_found:
  assumes "find_obs_file isf loc p0 = (True, p, tested)"
  shows "isf p \<and> (if isf p0 then p = p0
                   else \<exists>d. loc = Some d \<and> d \<noteq> [] \<and> p = path_join (parse_path d) p0)"
  using assms
  by (auto simp: find_obs_file_def Let_def split: if_splits option.splits)

lemma var_entry_Some:
  assumes "var_entry ev loc vdefs v = Some r"
  obtains m rec s p tested where
    "vdefs = YMap m" "map_of m (YStr v) = Some (YMap rec)"
    "map_of rec (YStr ''obs_file'') = Some (YStr s)"
    "find_obs_file (is_file ev) loc (parse_path s) = (True, p, tested)"
    "r = entry p rec v"
  using assms
  by (auto simp: var_entry_def split: yaml.splits option.splits prod.splits if_splits)

lemma init_entry:
  assumes "init ev cfg = Inr st" and "cfg_diag_basic_info cfg = Some bi"
    and "(v, r) \<in> set (var_obs_dict st)"
  shows "\<exists>vdefs. load_yaml ev (defaults_file ev bi) = Inr vdefs
           \<and> var_entry ev (cfg_obs_data_loc bi) vdefs v = Some r"
proof -
  note d = init_dict [OF assms(1,2)]
  from d assms(3) have cmp: "cfg_compare_obs bi"
    by (auto split: if_splits)
  with d obtain vdefs where
    l: "load_yaml ev (defaults_file ev bi) = Inr vdefs" and
    v: "var_obs_dict st = fold (add_entry ev (cfg_obs_data_loc bi) vdefs) (diag_var_list st) []"
    by auto
  have "distinct (map fst (var_obs_dict st))"
    by (simp add: v distinct_keys_fold_add_entry)
  with assms(3) have "map_of (var_obs_dict st) v = Some r"
    by simp
  then have "var_entry ev (cfg_obs_data_loc bi) vdefs v = Some r"
    by (simp add: v map_of_fold_add_entry split: if_splits)
  with l show ?thesis by blast
qed

text \<open>
  Claim C6. For every variable \<open>v\<close> with an entry in \<open>__var_obs_dict\<close>, the stored \<open>obs_name\<close>
  is the record's \<open>obs_name\<close> when the record has that key and otherwise the file name of
  the stored path; the stored \<open>obs_var\<close> is the record's \<open>obs_var_name\<close> when the record has
  that key and otherwise \<open>v\<close> itself.
\<close>
theorem stored_names:
  assumes "init ev cfg = Inr st" and "cfg_diag_basic_info cfg = Some bi"
    and "(v, r) \<in> set (var_obs_dict st)"
  shows "\<exists>m rec. load_yaml ev (defaults_file ev bi) = Inr (YMap m)
           \<and> map_of m (YStr v) = Some (YMap rec)
           \<and> obs_name r = (case map_of rec (YStr ''obs_name'') of
                             Some x \<Rightarrow> x | None \<Rightarrow> YStr (path_name (obs_file r)))
           \<and> obs_var r = (case map_of rec (YStr ''obs_var_name'') of
                            Some x \<Rightarrow> x | None \<Rightarrow> YStr v)"
proof -
  from init_entry [OF assms] obtain vdefs where
    l: "load_yaml ev (defaults_file ev bi) = Inr vdefs" and
    e: "var_entry ev (cfg_obs_data_loc bi) vdefs v = Some r"
    by blast
  from e obtain m rec s p tested where h:
    "vdefs = YMap m" "map_of m (YStr v) = Some (YMap rec)" "r = entry p rec v"
    by (rule var_entry_Some)
  from h(3) have "obs_name r = (case map_of rec (YStr ''obs_name'') of
                             Some x \<Rightarrow> x | None \<Rightarrow> YStr (path_name (obs_file r)))"
    and "obs_var r = (case map_of rec (YStr ''obs_var_name'') of
                            Some x \<Rightarrow> x | None \<Rightarrow> YStr v)"
    by (simp_all add: entry_def split: option.splits)
  with l h(1,2) show ?thesis by blast
qed

theorem stored_names_witness:
  "\<exists>st r. init ex_env (ex_config True True None [''TS'', ''U'']) = Inr st
     \<and> map_of (var_obs_dict st) ''TS'' = Some r
     \<and> obs_name r = YStr ''TS.nc'' \<and> obs_var r = YStr ''TS''
     \<and> (\<exists>m rec. load_yaml ex_env (defaults_file ex_env (ex_basic_info True True None)) = Inr (YMap m)
           \<and> map_of m (YStr ''TS'') = Some (YMap rec)
           \<and> obs_name r = (case map_of rec (YStr ''obs_name'') of
                             Some x \<Rightarrow> x | None \<Rightarrow> YStr (path_name (obs_file r)))
           \<and> obs_var r = (case map_of rec (YStr ''obs_var_name'') of
                            Some x \<Rightarrow> x | None \<Rightarrow> YStr ''TS''))"
proof -
  let ?cfg = "ex_config True True None [''TS'', ''U'']"
  have "case init ex_env ?cfg of
          Inr st \<Rightarrow> (case map_of (var_obs_dict st) ''TS'' of
                       Some r \<Rightarrow> obs_name r = YStr ''TS.nc'' \<and> obs_var r = YStr ''TS''
                     | None \<Rightarrow> False)
        | Inl e \<Rightarrow> False"
    by code_simp
  then obtain st r where st: "init ex_env ?cfg = Inr st"
    "map_of (var_obs_dict st) ''TS'' = Some r"
    "obs_name r = YStr ''TS.nc'' \<and> obs_var r = YStr ''TS''"
    by (auto split: sum.splits option.splits)
  have bi: "cfg_diag_basic_info ?cfg = Some (ex_basic_info True True None)"
    by (simp add: ex_config_def)
  from st(2) have mem: "(''TS'', r) \<in> set (var_obs_dict st)"
    by (rule map_of_SomeD)
  from conjI [OF st(1) conjI [OF st(2) conjI [OF st(3) stored_names [OF st(1) bi mem]]]]
  show ?thesis by (simp only: conj_assoc ex_simps) blast
qed

subsection \<open>The stored path\<close>

text \<open>
  Claim C3 says that the stored \<open>obs_file\<close> is a resolved absolute path. The constructor
  stores the path object it tested, and never makes it absolute: for the variable \<open>T\<close> of
  the example, whose file is given relative to the working directory and exists there,
  the stored path is the relative one.
\<close>
theorem stored_path_relative_counterexample:
  "map_sum id (\<lambda>st. map (\<lambda>(v, r). (v, obs_file r, is_absolute (obs_file r))) (var_obs_dict st))
     (init ex_env (ex_config True True None [''T'']))
   = Inr [(''T'', \<lparr>path_root = [], path_tail = [''rel'', ''T.nc'']\<rparr>, False)]"
  by code_simp

text \<open>
  Claim C3, amended. For every variable with an entry in \<open>__var_obs_dict\<close>, the stored
  \<open>obs_file\<close> is the candidate that passed the file test: the record's \<open>obs_file\<close> value as a
  path when that is a file, and otherwise \<open>obs_data_loc\<close> joined with it. It is stored as
  built, so it is absolute exactly when the record's value is absolute, or the second
  candidate was taken and \<open>obs_data_loc\<close> is absolute.
\<close>
theorem stored_path_is_found_candidate:
  assumes "init ev cfg = Inr st" and "cfg_diag_basic_info cfg = Some bi"
    and "(v, r) \<in> set (var_obs_dict st)"
  shows "\<exists>m rec s. load_yaml ev (defaults_file ev bi) = Inr (YMap m)
           \<and> map_of m (YStr v) = Some (YMap rec)
           \<and> map_of rec (YStr ''obs_file'') = Some (YStr s)
           \<and> is_file ev (obs_file r)
           \<and> (if is_file ev (parse_path s) then obs_file r = parse_path s
               else \<exists>d. cfg_obs_data_loc bi = Some d \<and> d \<noteq> []
                      \<and> obs_file r = path_join (parse_path d) (parse_path s))
           \<and> is_absolute (obs_file r) =
               (is_absolute (parse_path s)
                \<or> \<not> is_file ev (parse_path s)
                  \<and> (\<exists>d. cfg_obs_data_loc bi = Some d \<and> is_absolute (parse_path d)))"
proof -
  from init_entry [OF assms] obtain vdefs where
    l: "load_yaml ev (defaults_file ev bi) = Inr vdefs" and
    e: "var_entry ev (cfg_obs_data_loc bi) vdefs v = Some r"
    by blast
  from e obtain m rec s p tested where h:
    "vdefs = YMap m" "map_of m (YStr v) = Some (YMap rec)"
    "map_of rec (YStr ''obs_file'') = Some (YStr s)"
    "find_obs_file (is_file ev) (cfg_obs_data_loc bi) (parse_path s) = (True, p, tested)"
    "r = entry p rec v"
    by (rule var_entry_Some)
  from h(5) have p: "obs_file r = p"
    by (simp add: entry_def)
  note f = find_obs_file_found [OF h(4)]
  from f p have abs: "is_absolute (obs_file r) =
               (is_absolute (parse_path s)
                \<or> \<not> is_file ev (parse_path s)
                  \<and> (\<exists>d. cfg_obs_data_loc bi = Some d \<and> is_absolute (parse_path d)))"
    by (auto simp: is_absolute_def path_join_def split: if_splits)
  from f p have "is_file ev (obs_file r)"
    and "if is_file ev (parse_path s) then obs_file r = parse_path s
               else \<exists>d. cfg_obs_data_loc bi = Some d \<and> d \<noteq> []
                      \<and> obs_file r = path_join (parse_path d) (parse_path s)"
    by simp_all
  with l h(1,2,3) abs show ?thesis by blast
qed

theorem stored_path_is_found_candidate_witness:
  "\<exists>st r. init ex_env (ex_config True True (Some ''/data'') [''TA'']) = Inr st
     \<and> map_of (var_obs_dict st) ''TA'' = Some r
     \<and> obs_file r = parse_path ''/data/ta.nc''
     \<and> (\<exists>m rec s. load_yaml ex_env (defaults_file ex_env (ex_basic_info True True (Some ''/data''))) = Inr (YMap m)
           \<and> map_of m (YStr ''TA'') = Some (YMap rec)
           \<and> map_of rec (YStr ''obs_file'') = Some (YStr s)
           \<and> is_file ex_env (obs_file r)
           \<and> (if is_file ex_env (parse_path s) then obs_file r = parse_path s
               else \<exists>d. cfg_obs_data_loc (ex_basic_info True True (Some ''/data'')) = Some d \<and> d \<noteq> []
                      \<and> obs_file r = path_join (parse_path d) (parse_path s))
           \<and> is_absolute (obs_file r) =
               (is_absolute (parse_path s)
                \<or> \<not> is_file ex_env (parse_path s)
                  \<and> (\<exists>d. cfg_obs_data_loc (ex_basic_info True True (Some ''/data'')) = Some d
                         \<and> is_absolute (parse_path d))))"
proof -
  let ?cfg = "ex_config True True (Some ''/data'') [''TA'']"
  have "case init ex_env ?cfg of
          Inr st \<Rightarrow> (case map_of (var_obs_dict st) ''TA'' of
                       Some r \<Rightarrow> obs_file r = parse_path ''/data/ta.nc''
                     | None \<Rightarrow> False)
        | Inl e \<Rightarrow> False"
    by code_simp
  then obtain st r where st: "init ex_env ?cfg = Inr st"
    "map_of (var_obs_dict st) ''TA'' = Some r"
    "obs_file r = parse_path ''/data/ta.nc''"
    by (auto split: sum.splits option.splits)
  have bi: "cfg_diag_basic_info ?cfg = Some (ex_basic_info True True (Some ''/data''))"
    by (simp add: ex_config_def)
  from st(2) have mem: "(''TA'', r) \<in> set (var_obs_dict st)"
    by (rule map_of_SomeD)
  from conjI [OF st(1) conjI [OF st(2) conjI [OF st(3) stored_path_is_found_candidate [OF st(1) bi mem]]]]
  show ?thesis by (simp only: conj_assoc ex_simps) blast
qed

subsection \<open>Absolute paths and the fallback directory\<close>

lemma path_join_absolute: "is_absolute p \<Longrightarrow> path_join a p = p"
  by (simp add: path_join_def is_absolute_def)

text \<open>
  Claim C9. When the record's \<open>obs_file\<close> value is an absolute path that is not a file,
  joining any directory with it gives the same path back, so with \<open>obs_data_loc\<close> set the
  second test is made on the path already tested, and the variable gets no entry.
\<close>
theorem absolute_missing_file_is_skipped:
  assumes "init ev cfg = Inr st" and "cfg_diag_basic_info cfg = Some bi"
    and "load_yaml ev (defaults_file ev bi) = Inr (YMap m)"
    and "map_of m (YStr v) = Some (YMap rec)"
    and "map_of rec (YStr ''obs_file'') = Some (YStr s)"
    and "is_absolute (parse_path s)" and "\<not> is_file ev (parse_path s)"
  shows "(\<forall>d. path_join (parse_path d) (parse_path s) = parse_path s)
     \<and> (\<forall>d. d \<noteq> [] \<longrightarrow> find_obs_file (is_file ev) (Some d) (parse_path s)
                         = (False, parse_path s, [parse_path s, parse_path s]))
     \<and> v \<notin> fst ` set (var_obs_dict st)"
proof -
  have j: "path_join (parse_path d) (parse_path s) = parse_path s" for d
    using assms(6) by (rule path_join_absolute)
  have f: "fst (find_obs_file (is_file ev) loc (parse_path s)) = False" for loc
    using assms(7) by (simp add: find_obs_file_def j Let_def split: option.splits)
  have "v \<notin> fst ` set (var_obs_dict st)"
  proof
    assume "v \<in> fst ` set (var_obs_dict st)"
    then obtain r where "(v, r) \<in> set (var_obs_dict st)" by auto
    from init_entry [OF assms(1,2) this] assms(3)
    have "var_entry ev (cfg_obs_data_loc bi) (YMap m) v = Some r" by simp
    with assms(4,5) f [of "cfg_obs_data_loc bi"] show False
      by (simp add: var_entry_def split: prod.splits if_splits)
  qed
  moreover have "\<forall>d. d \<noteq> [] \<longrightarrow> find_obs_file (is_file ev) (Some d) (parse_path s)
                         = (False, parse_path s, [parse_path s, parse_path s])"
    using assms(7) by (simp add: find_obs_file_def j Let_def)
  ultimately show ?thesis using j by blast
qed


theorem absolute_missing_file_is_skipped_witness:
  "\<exists>st. init ex_env (ex_config True True (Some ''/data'') [''PS'', ''TS'']) = Inr st
     \<and> map fst (var_obs_dict st) = [''TS'']
     \<and> is_absolute (parse_path ''/obs/PS.nc'') \<and> \<not> is_file ex_env (parse_path ''/obs/PS.nc'')
     \<and> path_join (parse_path ''/data'') (parse_path ''/obs/PS.nc'') = parse_path ''/obs/PS.nc''
     \<and> find_obs_file (is_file ex_env) (Some ''/data'') (parse_path ''/obs/PS.nc'')
           = (False, parse_path ''/obs/PS.nc'', [parse_path ''/obs/PS.nc'', parse_path ''/obs/PS.nc''])
     \<and> ''PS'' \<notin> fst ` set (var_obs_dict st)"
proof -
  let ?cfg = "ex_config True True (Some ''/data'') [''PS'', ''TS'']"
  let ?bi = "ex_basic_info True True (Some ''/data'')"
  have "case init ex_env ?cfg of
          Inr st \<Rightarrow> map fst (var_obs_dict st) = [''TS''] | Inl e \<Rightarrow> False"
    by code_simp
  then obtain st where st: "init ex_env ?cfg = Inr st" "map fst (var_obs_dict st) = [''TS'']"
    by (cases "init ex_env ?cfg") simp_all
  have bi: "cfg_diag_basic_info ?cfg = Some ?bi"
    by (simp add: ex_config_def)
  have l: "load_yaml ex_env (defaults_file ex_env ?bi) = Inr (YMap ex_table)"
    by code_simp
  have r: "map_of ex_table (YStr ''PS'') = Some (YMap [(YStr ''obs_file'', YStr ''/obs/PS.nc'')])"
    by code_simp
  have f: "map_of [(YStr ''obs_file'', YStr ''/obs/PS.nc'')] (YStr ''obs_file'')
             = Some (YStr ''/obs/PS.nc'')"
    by simp
  have a: "is_absolute (parse_path ''/obs/PS.nc'')"
    by code_simp
  have n: "\<not> is_file ex_env (parse_path ''/obs/PS.nc'')"
    by code_simp
  note t = absolute_missing_file_is_skipped [OF st(1) bi l r f a n]
  from t have j: "path_join (parse_path ''/data'') (parse_path ''/obs/PS.nc'') = parse_path ''/obs/PS.nc''"
    by (elim conjE allE [of _ "''/data''"])
  from t have k: "find_obs_file (is_file ex_env) (Some ''/data'') (parse_path ''/obs/PS.nc'')
           = (False, parse_path ''/obs/PS.nc'', [parse_path ''/obs/PS.nc'', parse_path ''/obs/PS.nc''])"
    by (elim conjE allE [of _ "''/data''"]) simp
  from t have s: "''PS'' \<notin> fst ` set (var_obs_dict st)"
    by (elim conjE)
  from conjI [OF st(1) conjI [OF st(2) conjI [OF a conjI [OF n conjI [OF j conjI [OF k s]]]]]]
  show ?thesis by (rule exI)
qed

subsection \<open>The warning\<close>

lemma init_after_loop:
  assumes "cfg_diag_basic_info cfg = Some bi" and "cfg_compare_obs bi"
    and "cfg_diag_var_list cfg = Some vars"
    and "load_yaml ev (defaults_file ev bi) = Inr vdefs"
    and "resolve_loop ev (cfg_obs_data_loc bi) (defaults_file ev bi) vdefs vars
           (initial bi (if cfg_use_defaults bi then vdefs else YMap []) vars) = Inr st1"
  shows "init ev cfg =
           Inr (if var_obs_dict st1 = [] then st1\<lparr>printed := printed st1 @ [wmsg]\<rparr> else st1)"
  using assms by (auto simp: init_def ebind_def Let_def)

text \<open>
  Claim C7. When the constructor returns, the warning has been printed, once, if and only
  if \<open>compare_obs\<close> is true and \<open>__var_obs_dict\<close> is empty; and the warning goes to the screen,
  not to the debug log: no message logged for a skipped variable is the warning text.
  It is not fatal: once the loop has come to its end the constructor returns, with the
  dictionary and the log the loop left, whether the warning is printed or not.
  The warning is one string of five lines, each ended by a newline: a banner, the
  statement that no observations were found although this is a model vs obs run, what
  the framework will still do, the advice to run with \<open>--debug\<close>, and a closing banner.
\<close>
theorem warning_iff_compare_and_empty:
  "(\<forall>st. init ev cfg = Inr st \<longrightarrow>
       map_option cfg_compare_obs (cfg_diag_basic_info cfg) = Some (compare_obs st)
       \<and> printed st = (if compare_obs st \<and> var_obs_dict st = [] then [wmsg] else [])
       \<and> wmsg \<notin> set (debug_log st))
   \<and> (\<forall>bi vars vdefs st1.
         cfg_diag_basic_info cfg = Some bi \<and> cfg_compare_obs bi
         \<and> cfg_diag_var_list cfg = Some vars
         \<and> load_yaml ev (defaults_file ev bi) = Inr vdefs
         \<and> resolve_loop ev (cfg_obs_data_loc bi) (defaults_file ev bi) vdefs vars
              (initial bi (if cfg_use_defaults bi then vdefs else YMap []) vars) = Inr st1
         \<longrightarrow> (\<exists>st. init ev cfg = Inr st \<and> var_obs_dict st = var_obs_dict st1
                   \<and> debug_log st = debug_log st1))
   \<and> wmsg =
       concat (map (\<lambda>l. l @ [CHR 0x0A])
          [''!!!!WARNING!!!!'',
           ''No observations found for any variables, but this is a model vs obs run!'',
           ''ADF will still calculate time series and climatologies if requested, but will stop there.'',
           ''If this result is unexpected, then run with '' @ [CHR 0x27] @ ''--debug'' @ [CHR 0x27]
             @ '' and check the log for messages.'',
           ''!!!!!!!!!!!!!!!''])"
proof (intro conjI allI impI)
  fix st
  assume i: "init ev cfg = Inr st"
  then obtain bi where bi: "cfg_diag_basic_info cfg = Some bi"
    by (auto dest: init_basic_info)
  have "map_option cfg_compare_obs (cfg_diag_basic_info cfg) = Some (compare_obs st)
       \<and> printed st = (if compare_obs st \<and> var_obs_dict st = [] then [wmsg] else [])
       \<and> wmsg \<notin> set (debug_log st)"
  proof (cases "cfg_compare_obs bi")
    case False
    with i bi show ?thesis
      by (auto simp: init_no_compare initial_def ebind_def split: sum.splits option.splits if_splits)
  next
    case True
    from i bi True obtain vdefs vars st1 where h:
      "resolve_loop ev (cfg_obs_data_loc bi) (defaults_file ev bi) vdefs vars
         (initial bi (if cfg_use_defaults bi then vdefs else YMap []) vars) = Inr st1"
      "st = (if var_obs_dict st1 = [] then st1\<lparr>printed := printed st1 @ [wmsg]\<rparr> else st1)"
      by (rule init_compare)
    from resolve_loop_frame [OF h(1)] have f: "printed st1 = []" "compare_obs st1 = True"
      using True by (simp_all add: initial_def)
    from resolve_loop_log [OF h(1)] have l: "wmsg \<notin> set (debug_log st1)"
      by (auto simp: initial_def)
    from h(2) f l bi True show ?thesis
      by (auto split: if_splits)
  qed
  then show "map_option cfg_compare_obs (cfg_diag_basic_info cfg) = Some (compare_obs st)"
    and "printed st = (if compare_obs st \<and> var_obs_dict st = [] then [wmsg] else [])"
    and "wmsg \<notin> set (debug_log st)"
    by blast+
next
  fix bi vars vdefs st1
  assume "cfg_diag_basic_info cfg = Some bi \<and> cfg_compare_obs bi
         \<and> cfg_diag_var_list cfg = Some vars
         \<and> load_yaml ev (defaults_file ev bi) = Inr vdefs
         \<and> resolve_loop ev (cfg_obs_data_loc bi) (defaults_file ev bi) vdefs vars
              (initial bi (if cfg_use_defaults bi then vdefs else YMap []) vars) = Inr st1"
  then have h: "cfg_diag_basic_info cfg = Some bi" "cfg_compare_obs bi"
    "cfg_diag_var_list cfg = Some vars" "load_yaml ev (defaults_file ev bi) = Inr vdefs"
    "resolve_loop ev (cfg_obs_data_loc bi) (defaults_file ev bi) vdefs vars
       (initial bi (if cfg_use_defaults bi then vdefs else YMap []) vars) = Inr st1"
    by blast+
  have "init ev cfg =
           Inr (if var_obs_dict st1 = [] then st1\<lparr>printed := printed st1 @ [wmsg]\<rparr> else st1)"
    using h by (rule init_after_loop)
  then show "\<exists>st. init ev cfg = Inr st \<and> var_obs_dict st = var_obs_dict st1
                   \<and> debug_log st = debug_log st1"
    by simp
next
  show "wmsg =
       concat (map (\<lambda>l. l @ [CHR 0x0A])
          [''!!!!WARNING!!!!'',
           ''No observations found for any variables, but this is a model vs obs run!'',
           ''ADF will still calculate time series and climatologies if requested, but will stop there.'',
           ''If this result is unexpected, then run with '' @ [CHR 0x27] @ ''--debug'' @ [CHR 0x27]
             @ '' and check the log for messages.'',
           ''!!!!!!!!!!!!!!!''])"
    by (simp add: wmsg_def)
qed

theorem warning_iff_compare_and_empty_witness:
  "\<exists>st st1. init ex_env (ex_config True True None [''PS'', ''PRECT'']) = Inr st
     \<and> resolve_loop ex_env None (defaults_file ex_env (ex_basic_info True True None)) ex_defaults
          [''PS'', ''PRECT''] (initial (ex_basic_info True True None) ex_defaults [''PS'', ''PRECT''])
         = Inr st1
     \<and> var_obs_dict st1 = [] \<and> var_obs_dict st = [] \<and> compare_obs st
     \<and> length (debug_log st) = 2 \<and> wmsg \<notin> set (debug_log st) \<and> printed st = [wmsg]
     \<and> printed st =
         [concat (map (\<lambda>l. l @ [CHR 0x0A])
            [''!!!!WARNING!!!!'',
             ''No observations found for any variables, but this is a model vs obs run!'',
             ''ADF will still calculate time series and climatologies if requested, but will stop there.'',
             ''If this result is unexpected, then run with '' @ [CHR 0x27] @ ''--debug'' @ [CHR 0x27]
               @ '' and check the log for messages.'',
             ''!!!!!!!!!!!!!!!''])]"
proof -
  let ?cfg = "ex_config True True None [''PS'', ''PRECT'']"
  let ?bi = "ex_basic_info True True None"
  let ?loop = "resolve_loop ex_env None (defaults_file ex_env ?bi) ex_defaults
          [''PS'', ''PRECT''] (initial ?bi ex_defaults [''PS'', ''PRECT''])"
  note t = warning_iff_compare_and_empty [of ex_env ?cfg]
  have bi: "cfg_diag_basic_info ?cfg = Some ?bi"
    and vars: "cfg_diag_var_list ?cfg = Some [''PS'', ''PRECT'']"
    by (simp_all add: ex_config_def)
  have c: "cfg_compare_obs ?bi" "cfg_use_defaults ?bi" "cfg_obs_data_loc ?bi = None"
    by (simp_all add: ex_basic_info_def)
  have l: "load_yaml ex_env (defaults_file ex_env ?bi) = Inr ex_defaults"
    by code_simp
  have "case ?loop of Inr st1 \<Rightarrow> var_obs_dict st1 = [] \<and> length (debug_log st1) = 2
        | Inl e \<Rightarrow> False"
    by code_simp
  then obtain st1 where st1: "?loop = Inr st1" "var_obs_dict st1 = []" "length (debug_log st1) = 2"
    by (cases ?loop) simp_all
  from t bi vars c l st1(1)
  obtain st where st: "init ex_env ?cfg = Inr st" "var_obs_dict st = var_obs_dict st1"
      "debug_log st = debug_log st1"
    by (auto simp del: resolve_loop.simps)
  from t st(1) bi c(1) have
    "compare_obs st" 
    "printed st = (if compare_obs st \<and> var_obs_dict st = [] then [wmsg] else [])"
    "wmsg \<notin> set (debug_log st)"
    by auto
  then have p: "compare_obs st" "printed st = [wmsg]" "wmsg \<notin> set (debug_log st)"
    using st(2) st1(2) by simp_all
  from t have w: "wmsg =
       concat (map (\<lambda>l. l @ [CHR 0x0A])
          [''!!!!WARNING!!!!'',
           ''No observations found for any variables, but this is a model vs obs run!'',
           ''ADF will still calculate time series and climatologies if requested, but will stop there.'',
           ''If this result is unexpected, then run with '' @ [CHR 0x27] @ ''--debug'' @ [CHR 0x27]
             @ '' and check the log for messages.'',
           ''!!!!!!!!!!!!!!!''])"
    by (elim conjE)
  have "printed st =
         [concat (map (\<lambda>l. l @ [CHR 0x0A])
            [''!!!!WARNING!!!!'',
             ''No observations found for any variables, but this is a model vs obs run!'',
             ''ADF will still calculate time series and climatologies if requested, but will stop there.'',
             ''If this result is unexpected, then run with '' @ [CHR 0x27] @ ''--debug'' @ [CHR 0x27]
               @ '' and check the log for messages.'',
             ''!!!!!!!!!!!!!!!''])]"
    using p(2) by (simp only: w [symmetric])
  with p st st1 show ?thesis
    by (auto simp del: resolve_loop.simps)
qed

subsection \<open>Runs that do not compare with observations\<close>

lemma defaults_file_is_file [simp]: "defaults_file (ev\<lparr>is_file := f\<rparr>) bi = defaults_file ev bi"
  by (simp add: defaults_file_def split: option.splits)

text \<open>
  Claim C8. When \<open>compare_obs\<close> is false the constructor returns before the loop: whatever
  the variable list, the defaults table and the file system, \<open>__var_obs_dict\<close> is empty and
  \<open>is_file\<close> is never called; the outcome of the constructor, an error included, is the
  same for every answer \<open>is_file\<close> could give.
\<close>
theorem no_compare_no_resolution:
  assumes "cfg_diag_basic_info cfg = Some bi" and "\<not> cfg_compare_obs bi"
  shows "(\<forall>st. init ev cfg = Inr st \<longrightarrow> var_obs_dict st = [] \<and> is_file_calls st = [])
     \<and> (\<forall>f. init (ev\<lparr>is_file := f\<rparr>) cfg = init ev cfg)"
  using assms
  by (auto simp: init_no_compare initial_def ebind_def split: sum.splits option.splits if_splits)

theorem no_compare_no_resolution_witness:
  "cfg_diag_basic_info (ex_config True False (Some ''/data'') [''TS'', ''TA''])
      = Some (ex_basic_info True False (Some ''/data''))
   \<and> \<not> cfg_compare_obs (ex_basic_info True False (Some ''/data''))
   \<and> (\<exists>st. init ex_env (ex_config True False (Some ''/data'') [''TS'', ''TA'']) = Inr st
          \<and> variable_defaults st = ex_defaults
          \<and> var_obs_dict st = [] \<and> is_file_calls st = [])
   \<and> init (ex_env\<lparr>is_file := (\<lambda>p. True)\<rparr>) (ex_config True False (Some ''/data'') [''TS'', ''TA''])
        = init ex_env (ex_config True False (Some ''/data'') [''TS'', ''TA''])"
proof -
  let ?cfg = "ex_config True False (Some ''/data'') [''TS'', ''TA'']"
  let ?bi = "ex_basic_info True False (Some ''/data'')"
  have bi: "cfg_diag_basic_info ?cfg = Some ?bi"
    by (simp add: ex_config_def)
  have c: "\<not> cfg_compare_obs ?bi"
    by (simp add: ex_basic_info_def)
  have "case init ex_env ?cfg of
          Inr st \<Rightarrow> variable_defaults st = ex_defaults | Inl e \<Rightarrow> False"
    by code_simp
  then obtain st where st: "init ex_env ?cfg = Inr st" "variable_defaults st = ex_defaults"
    by (cases "init ex_env ?cfg") simp_all
  note t = no_compare_no_resolution [OF bi c, of ex_env]
  from t st(1) have e: "var_obs_dict st = [] \<and> is_file_calls st = []"
    by simp
  from t have i: "init (ex_env\<lparr>is_file := (\<lambda>p. True)\<rparr>) ?cfg = init ex_env ?cfg"
    by (elim conjE allE [of _ "\<lambda>p. True"])
  from conjI [OF st(1) conjI [OF st(2) e]]
  have "\<exists>st. init ex_env ?cfg = Inr st \<and> variable_defaults st = ex_defaults
          \<and> var_obs_dict st = [] \<and> is_file_calls st = []"
    by (rule exI)
  from conjI [OF bi conjI [OF c conjI [OF this i]]] show ?thesis .
qed

subsection \<open>Runs that do not use the defaults\<close>

text \<open>
  Claim C1 says that with \<open>use_defaults\<close> false the constructor always ends with an empty
  \<open>__var_obs_dict\<close> and without error. When \<open>compare_obs\<close> is true the constructor finds
  \<open>__variable_defaults\<close> empty and loads the defaults file into a local variable, which the
  loop then uses: in the example \<open>TS\<close> gets its entry and no warning is printed, while the
  attribute \<open>__variable_defaults\<close> stays empty.
\<close>
theorem no_defaults_catalog_counterexample:
  "map_sum id (\<lambda>st. (use_defaults st, variable_defaults st, map fst (var_obs_dict st), printed st))
     (init ex_env (ex_config False True None [''TS'', ''PRECT'']))
   = Inr (False, YMap [], [''TS''], [])"
  by code_simp

text \<open>
  Claim C1, amended. With \<open>use_defaults\<close> false, \<open>__variable_defaults\<close> is the empty mapping
  whenever the constructor returns; if \<open>compare_obs\<close> is false as well, the constructor
  returns for every variable list and every file system, with an empty \<open>__var_obs_dict\<close>,
  nothing logged and nothing printed. If \<open>compare_obs\<close> is true, the constructor needs the
  defaults file for the loop, and fails when the file cannot be loaded.
\<close>
theorem no_defaults_empty_table:
  assumes "cfg_diag_basic_info cfg = Some bi" and "\<not> cfg_use_defaults bi"
    and "cfg_diag_var_list cfg = Some vars"
  shows "(\<forall>st. init ev cfg = Inr st \<longrightarrow> variable_defaults st = YMap [])
     \<and> (\<not> cfg_compare_obs bi \<longrightarrow>
          (\<exists>st. init ev cfg = Inr st \<and> variable_defaults st = YMap [] \<and> var_obs_dict st = []
                \<and> debug_log st = [] \<and> printed st = []))
     \<and> (\<forall>e. cfg_compare_obs bi \<and> load_yaml ev (defaults_file ev bi) = Inl e \<longrightarrow>
              init ev cfg = Inl e)"
proof -
  have "variable_defaults st = YMap []" if i: "init ev cfg = Inr st" for st
  proof (cases "cfg_compare_obs bi")
    case False
    with assms i show ?thesis
      by (auto simp: init_no_compare initial_def ebind_def)
  next
    case True
    from i assms(1) True obtain vdefs vars st1 where h:
      "resolve_loop ev (cfg_obs_data_loc bi) (defaults_file ev bi) vdefs vars
         (initial bi (if cfg_use_defaults bi then vdefs else YMap []) vars) = Inr st1"
      "st = (if var_obs_dict st1 = [] then st1\<lparr>printed := printed st1 @ [wmsg]\<rparr> else st1)"
      by (rule init_compare)
    from resolve_loop_frame [OF h(1)] assms(2) h(2) show ?thesis
      by (auto simp: initial_def split: if_splits)
  qed
  moreover have "\<not> cfg_compare_obs bi \<longrightarrow>
          (\<exists>st. init ev cfg = Inr st \<and> variable_defaults st = YMap [] \<and> var_obs_dict st = []
                \<and> debug_log st = [] \<and> printed st = [])"
    using assms by (auto simp: init_no_compare initial_def ebind_def)
  moreover have "\<forall>e. cfg_compare_obs bi \<and> load_yaml ev (defaults_file ev bi) = Inl e \<longrightarrow>
              init ev cfg = Inl e"
    using assms by (simp add: init_def ebind_def Let_def)
  ultimately show ?thesis by blast
qed

theorem no_defaults_empty_table_witness:
  "cfg_diag_basic_info (ex_config False False None [''TS'', ''PRECT''])
      = Some (ex_basic_info False False None)
   \<and> \<not> cfg_use_defaults (ex_basic_info False False None)
   \<and> \<not> cfg_compare_obs (ex_basic_info False False None)
   \<and> (\<exists>st. init ex_env (ex_config False False None [''TS'', ''PRECT'']) = Inr st
          \<and> variable_defaults st = YMap [] \<and> var_obs_dict st = []
          \<and> debug_log st = [] \<and> printed st = [])"
proof -
  let ?cfg = "ex_config False False None [''TS'', ''PRECT'']"
  let ?bi = "ex_basic_info False False None"
  have bi: "cfg_diag_basic_info ?cfg = Some ?bi"
    and vars: "cfg_diag_var_list ?cfg = Some [''TS'', ''PRECT'']"
    by (simp_all add: ex_config_def)
  have u: "\<not> cfg_use_defaults ?bi" and c: "\<not> cfg_compare_obs ?bi"
    by (simp_all add: ex_basic_info_def)
  from no_defaults_empty_table [OF bi u vars, of ex_env] c
  have "\<exists>st. init ex_env ?cfg = Inr st
          \<and> variable_defaults st = YMap [] \<and> var_obs_dict st = []
          \<and> debug_log st = [] \<and> printed st = []"
    by (elim conjE impE) assumption+
  with bi u c show ?thesis by (intro conjI)
qed

subsection \<open>Entries of the defaults table that are not mappings\<close>

text \<open>
  Claim C10 says that an entry of the defaults table that is not a mapping makes the
  test \<open>"obs_file" in default_var_dict\<close> raise \<open>TypeError\<close>. A sequence and a string are not
  mappings, yet the test is defined on them: for the entry \<open>V\<close> of the example, an empty
  sequence, it answers false, the variable is skipped with the usual message, and the
  loop goes on to \<open>TS\<close>.
\<close>
theorem sequence_entry_is_skipped_counterexample:
  "py_in ''obs_file'' (YSeq []) = Inr False
   \<and> map_of ex_table (YStr ''V'') = Some (YSeq [])
   \<and> map_sum id (\<lambda>st. (map fst (var_obs_dict st), debug_log st))
        (init ex_env (ex_config True True None [''V'', ''TS'']))
      = Inr ([''TS''], [msg_no_obs_file ''V''])"
  by code_simp

lemma resolve_var_scalar:
  assumes "map_of m (YStr v) = Some e"
    and "e = YNull \<or> (\<exists>b. e = YBool b) \<or> (\<exists>i. e = YInt i) \<or> (\<exists>x. e = YFloat x)"
  shows "resolve_var ev loc dfile (YMap m) v st = Inl TypeError"
  using assms by (auto simp: resolve_var_def ebind_def)

lemma resolve_loop_raises:
  assumes "v \<in> set vars"
    and "\<And>st. resolve_var ev loc dfile vdefs v st = Inl TypeError"
  shows "resolve_loop ev loc dfile vdefs vars st = Inl TypeError"
  using assms(1)
proof (induction vars arbitrary: st)
  case Nil then show ?case by simp
next
  case (Cons x xs)
  show ?case
  proof (cases "resolve_var ev loc dfile vdefs x st")
    case (Inl e)
    then show ?thesis
      by (simp add: ebind_def resolve_var_error [OF Inl])
  next
    case (Inr st1)
    with assms(2) [of st] have "x \<noteq> v" by auto
    with Cons.prems have "v \<in> set xs" by simp
    from Cons.IH [OF this] Inr show ?thesis
      by (simp add: ebind_def)
  qed
qed

text \<open>
  Claim C10, amended. If the entry of the defaults table for a requested variable is a
  null, a boolean or a number, the test \<open>"obs_file" in default_var_dict\<close> raises
  \<open>TypeError\<close>, and the whole constructor ends with that error instead of skipping the
  variable. On a sequence or a string the test does not raise: it looks for an element,
  or for a substring.
\<close>
theorem scalar_entry_aborts:
  assumes "cfg_diag_basic_info cfg = Some bi" and "cfg_compare_obs bi"
    and "cfg_diag_var_list cfg = Some vars"
    and "load_yaml ev (defaults_file ev bi) = Inr (YMap m)"
    and "v \<in> set vars" and "map_of m (YStr v) = Some e"
    and "e = YNull \<or> (\<exists>b. e = YBool b) \<or> (\<exists>i. e = YInt i) \<or> (\<exists>x. e = YFloat x)"
  shows "py_in ''obs_file'' e = Inl TypeError \<and> init ev cfg = Inl TypeError
     \<and> (\<forall>xs. py_in ''obs_file'' (YSeq xs) = Inr (YStr ''obs_file'' \<in> set xs))
     \<and> (\<forall>t. py_in ''obs_file'' (YStr t) = Inr (is_substr ''obs_file'' t))"
proof -
  from assms(7) have "py_in ''obs_file'' e = Inl TypeError" by auto
  moreover
  from assms(6) have ne: "m \<noteq> []" by auto
  have "resolve_loop ev (cfg_obs_data_loc bi) (defaults_file ev bi) (YMap m) vars st = Inl TypeError" for st
    using assms(5) resolve_var_scalar [OF assms(6,7)] by (rule resolve_loop_raises)
  with assms(1-4) ne have "init ev cfg = Inl TypeError"
    by (simp add: init_def ebind_def Let_def)
  ultimately show ?thesis by simp
qed

theorem scalar_entry_aborts_witness:
  "py_in ''obs_file'' YNull = Inl TypeError
   \<and> init ex_env (ex_config True True None [''TS'', ''Q'', ''TA'']) = Inl TypeError
   \<and> (\<forall>xs. py_in ''obs_file'' (YSeq xs) = Inr (YStr ''obs_file'' \<in> set xs))
   \<and> (\<forall>t. py_in ''obs_file'' (YStr t) = Inr (is_substr ''obs_file'' t))"
proof -
  let ?cfg = "ex_config True True None [''TS'', ''Q'', ''TA'']"
  let ?bi = "ex_basic_info True True None"
  have bi: "cfg_diag_basic_info ?cfg = Some ?bi"
    and vars: "cfg_diag_var_list ?cfg = Some [''TS'', ''Q'', ''TA'']"
    by (simp_all add: ex_config_def)
  have c: "cfg_compare_obs ?bi"
    by (simp add: ex_basic_info_def)
  have l: "load_yaml ex_env (defaults_file ex_env ?bi) = Inr (YMap ex_table)"
    by code_simp
  have v: "''Q'' \<in> set [''TS'', ''Q'', ''TA'']"
    by simp
  have q: "map_of ex_table (YStr ''Q'') = Some YNull"
    by code_simp
  have n: "YNull = YNull \<or> (\<exists>b. YNull = YBool b) \<or> (\<exists>i. YNull = YInt i) \<or> (\<exists>x. YNull = YFloat x)"
    by simp
  from scalar_entry_aborts [OF bi c vars l v q n] show ?thesis .
qed

subsection \<open>The order of the two tests\<close>

lemma find_obs_file_primary: "isf p \<Longrightarrow> find_obs_file isf loc p = (True, p, [p])"
  by (simp add: find_obs_file_def)

lemma find_obs_file_unset:
  "\<not> isf p \<Longrightarrow> loc = None \<or> loc = Some [] \<Longrightarrow> find_obs_file isf loc p = (False, p, [p])"
  by (auto simp: find_obs_file_def)

lemma find_obs_file_fallback:
  "\<not> isf p \<Longrightarrow> d \<noteq> [] \<Longrightarrow>
     find_obs_file isf (Some d) p
       = (isf (path_join (parse_path d) p), path_join (parse_path d) p,
          [p, path_join (parse_path d) p])"
  by (simp add: find_obs_file_def Let_def)

lemma resolve_var_tests_other:
  assumes "resolve_var ev loc dfile vdefs var st = Inr st'"
    and "\<not> (\<exists>m rec s. vdefs = YMap m \<and> map_of m (YStr var) = Some (YMap rec)
        \<and> map_of rec (YStr ''obs_file'') = Some (YStr s))"
  shows "is_file_calls st' = is_file_calls st"
proof (cases vdefs)
  case (YMap m)
  show ?thesis
  proof (cases "map_of m (YStr var)")
    case None
    with YMap assms(1) show ?thesis
      by (auto simp: resolve_var_def ebind_def)
  next
    case (Some y)
    with YMap assms show ?thesis
      by (cases y)
        (auto simp: resolve_var_def ebind_def split: if_splits option.splits yaml.splits)
  qed
qed (use assms(1) in \<open>auto simp: resolve_var_def ebind_def split: if_splits\<close>)

lemma resolve_var_tests:
  assumes "resolve_var ev loc dfile vdefs var st = Inr st'"
  shows "is_file_calls st' = is_file_calls st @ var_tests ev loc vdefs var"
proof (cases "\<exists>m rec s. vdefs = YMap m \<and> map_of m (YStr var) = Some (YMap rec)
        \<and> map_of rec (YStr ''obs_file'') = Some (YStr s)")
  case True
  then obtain m rec s where h: "vdefs = YMap m" "map_of m (YStr var) = Some (YMap rec)"
     "map_of rec (YStr ''obs_file'') = Some (YStr s)" by blast
  show ?thesis using assms h
    by (auto simp: resolve_var_mapping [OF h(2,3)] var_tests_def split: prod.splits if_splits)
next
  case False
  then have "var_tests ev loc vdefs var = []"
    by (auto simp: var_tests_def split: yaml.splits option.splits)
  with resolve_var_tests_other [OF assms False] show ?thesis
    by simp
qed

lemma resolve_loop_tests:
  "resolve_loop ev loc dfile vdefs vars st = Inr st' \<Longrightarrow>
     is_file_calls st' = is_file_calls st @ concat (map (var_tests ev loc vdefs) vars)"
proof (induction vars arbitrary: st)
  case Nil then show ?case by simp
next
  case (Cons v vars)
  then show ?case
    by (auto simp: ebind_def split: sum.splits dest: resolve_var_tests)
qed

lemma init_tests:
  assumes "init ev cfg = Inr st" and "cfg_diag_basic_info cfg = Some bi"
    and "cfg_compare_obs bi" and "load_yaml ev (defaults_file ev bi) = Inr vdefs"
  shows "is_file_calls st = concat (map (var_tests ev (cfg_obs_data_loc bi) vdefs) (diag_var_list st))
     \<and> var_obs_dict st = fold (add_entry ev (cfg_obs_data_loc bi) vdefs) (diag_var_list st) []"
proof -
  from assms(1-3) obtain vdefs' vars st1 where h:
    "cfg_diag_var_list cfg = Some vars"
    "load_yaml ev (defaults_file ev bi) = Inr vdefs'"
    "resolve_loop ev (cfg_obs_data_loc bi) (defaults_file ev bi) vdefs' vars
       (initial bi (if cfg_use_defaults bi then vdefs' else YMap []) vars) = Inr st1"
    "st = (if var_obs_dict st1 = [] then st1\<lparr>printed := printed st1 @ [wmsg]\<rparr> else st1)"
    by (rule init_compare)
  from h(2) assms(4) have v: "vdefs' = vdefs" by simp
  from resolve_loop_tests [OF h(3)] resolve_loop_dict [OF h(3)] resolve_loop_frame [OF h(3)] h(4) v
  show ?thesis by (auto simp: initial_def)
qed

text \<open>
  Claim C2. In a run that compares with observations, for every requested variable whose
  record gives \<open>obs_file\<close>, the constructor first tests the path as given. Only if that is
  not a file and \<open>obs_data_loc\<close> is set does it test a second path, \<open>obs_data_loc\<close> joined
  with the whole given path (all its components, not the last one alone). The first of
  the two that is a file is the \<open>obs_file\<close> of the variable in the dictionary of the object
  returned; if none is, the variable has no entry. The tests the object has made are
  those of its variables, in the order of the list.
\<close>
theorem obs_file_search_order:
  assumes "init ev cfg = Inr st" and "cfg_diag_basic_info cfg = Some bi"
    and "cfg_compare_obs bi"
    and "load_yaml ev (defaults_file ev bi) = Inr (YMap m)"
    and "v \<in> set (diag_var_list st)"
    and "map_of m (YStr v) = Some (YMap rec)"
    and "map_of rec (YStr ''obs_file'') = Some (YStr s)"
  shows "is_file_calls st
           = concat (map (var_tests ev (cfg_obs_data_loc bi) (YMap m)) (diag_var_list st))
     \<and> (is_file ev (parse_path s) \<longrightarrow>
          var_tests ev (cfg_obs_data_loc bi) (YMap m) v = [parse_path s]
          \<and> map_option obs_file (map_of (var_obs_dict st) v) = Some (parse_path s))
     \<and> (\<not> is_file ev (parse_path s)
          \<and> (cfg_obs_data_loc bi = None \<or> cfg_obs_data_loc bi = Some []) \<longrightarrow>
          var_tests ev (cfg_obs_data_loc bi) (YMap m) v = [parse_path s]
          \<and> map_of (var_obs_dict st) v = None)
     \<and> (\<forall>d. \<not> is_file ev (parse_path s) \<and> cfg_obs_data_loc bi = Some d \<and> d \<noteq> [] \<longrightarrow>
          var_tests ev (cfg_obs_data_loc bi) (YMap m) v
            = [parse_path s, path_join (parse_path d) (parse_path s)]
          \<and> (\<not> is_absolute (parse_path s) \<longrightarrow>
                path_join (parse_path d) (parse_path s)
                  = \<lparr>path_root = path_root (parse_path d),
                     path_tail = path_tail (parse_path d) @ path_tail (parse_path s)\<rparr>)
          \<and> map_option obs_file (map_of (var_obs_dict st) v)
              = (if is_file ev (path_join (parse_path d) (parse_path s))
                 then Some (path_join (parse_path d) (parse_path s)) else None))"
proof -
  let ?loc = "cfg_obs_data_loc bi"
  let ?p = "parse_path s"
  note i = init_tests [OF assms(1-4)]
  have t: "var_tests ev ?loc (YMap m) v = snd (snd (find_obs_file (is_file ev) ?loc ?p))"
    using assms(6,7) by (simp add: var_tests_def split: prod.splits)
  have "map_of (var_obs_dict st) v = var_entry ev ?loc (YMap m) v"
    using i assms(5) by (simp add: map_of_fold_add_entry)
  then have e: "map_of (var_obs_dict st) v =
      (if fst (find_obs_file (is_file ev) ?loc ?p)
       then Some (entry (fst (snd (find_obs_file (is_file ev) ?loc ?p))) rec v) else None)"
    using assms(6,7) by (simp add: var_entry_def split: prod.splits)
  have rel: "\<not> is_absolute ?p \<longrightarrow>
                path_join (parse_path d) ?p
                  = \<lparr>path_root = path_root (parse_path d),
                     path_tail = path_tail (parse_path d) @ path_tail ?p\<rparr>" for d
    by (simp add: path_join_def is_absolute_def)
  have a: "is_file ev ?p \<longrightarrow>
          var_tests ev ?loc (YMap m) v = [?p]
          \<and> map_option obs_file (map_of (var_obs_dict st) v) = Some ?p"
    by (simp add: t e find_obs_file_primary entry_def)
  have b: "\<not> is_file ev ?p \<and> (?loc = None \<or> ?loc = Some []) \<longrightarrow>
          var_tests ev ?loc (YMap m) v = [?p] \<and> map_of (var_obs_dict st) v = None"
  proof (intro impI, elim conjE)
    assume n: "\<not> is_file ev ?p" and l: "?loc = None \<or> ?loc = Some []"
    from find_obs_file_unset [of "is_file ev" ?p ?loc, OF n l]
    show "var_tests ev ?loc (YMap m) v = [?p] \<and> map_of (var_obs_dict st) v = None"
      by (simp add: t e)
  qed
  have c: "\<forall>d. \<not> is_file ev ?p \<and> ?loc = Some d \<and> d \<noteq> [] \<longrightarrow>
          var_tests ev ?loc (YMap m) v = [?p, path_join (parse_path d) ?p]
          \<and> (\<not> is_absolute ?p \<longrightarrow>
                path_join (parse_path d) ?p
                  = \<lparr>path_root = path_root (parse_path d),
                     path_tail = path_tail (parse_path d) @ path_tail ?p\<rparr>)
          \<and> map_option obs_file (map_of (var_obs_dict st) v)
              = (if is_file ev (path_join (parse_path d) ?p)
                 then Some (path_join (parse_path d) ?p) else None)"
  proof (intro allI impI, elim conjE)
    fix d
    assume n: "\<not> is_file ev ?p" and l: "?loc = Some d" and d: "d \<noteq> []"
    from find_obs_file_fallback [of "is_file ev" ?p d, OF n d]
    have f: "find_obs_file (is_file ev) ?loc ?p
       = (is_file ev (path_join (parse_path d) ?p), path_join (parse_path d) ?p,
          [?p, path_join (parse_path d) ?p])"
      by (simp only: l)
    show "var_tests ev ?loc (YMap m) v = [?p, path_join (parse_path d) ?p]
          \<and> (\<not> is_absolute ?p \<longrightarrow>
                path_join (parse_path d) ?p
                  = \<lparr>path_root = path_root (parse_path d),
                     path_tail = path_tail (parse_path d) @ path_tail ?p\<rparr>)
          \<and> map_option obs_file (map_of (var_obs_dict st) v)
              = (if is_file ev (path_join (parse_path d) ?p)
                 then Some (path_join (parse_path d) ?p) else None)"
      using rel [of d] by (simp add: t e f entry_def)
  qed
  from i a b c show ?thesis by blast
qed


theorem obs_file_search_order_witness:
  "\<exists>st. init ex_env (ex_config True True (Some ''/data'') [''TS'', ''TA'']) = Inr st
     \<and> diag_var_list st = [''TS'', ''TA'']
     \<and> is_file_calls st
         = [parse_path ''/obs/TS.nc'', parse_path ''ta.nc'', parse_path ''/data/ta.nc'']
     \<and> \<not> is_file ex_env (parse_path ''ta.nc'')
     \<and> is_file ex_env (path_join (parse_path ''/data'') (parse_path ''ta.nc''))
     \<and> path_join (parse_path ''/data'') (parse_path ''ta.nc'') = parse_path ''/data/ta.nc''
     \<and> is_file_calls st
         = concat (map (var_tests ex_env (Some ''/data'') (YMap ex_table)) (diag_var_list st))
     \<and> var_tests ex_env (Some ''/data'') (YMap ex_table) ''TA''
         = [parse_path ''ta.nc'', path_join (parse_path ''/data'') (parse_path ''ta.nc'')]
     \<and> map_option obs_file (map_of (var_obs_dict st) ''TA'')
         = Some (path_join (parse_path ''/data'') (parse_path ''ta.nc''))"
proof -
  let ?cfg = "ex_config True True (Some ''/data'') [''TS'', ''TA'']"
  let ?bi = "ex_basic_info True True (Some ''/data'')"
  have "case init ex_env ?cfg of
          Inr st \<Rightarrow> diag_var_list st = [''TS'', ''TA'']
            \<and> is_file_calls st
                = [parse_path ''/obs/TS.nc'', parse_path ''ta.nc'', parse_path ''/data/ta.nc'']
        | Inl e \<Rightarrow> False"
    by code_simp
  then obtain st where st: "init ex_env ?cfg = Inr st" "diag_var_list st = [''TS'', ''TA'']"
    "is_file_calls st
       = [parse_path ''/obs/TS.nc'', parse_path ''ta.nc'', parse_path ''/data/ta.nc'']"
    by (cases "init ex_env ?cfg") simp_all
  have bi: "cfg_diag_basic_info ?cfg = Some ?bi"
    by (simp add: ex_config_def)
  have c: "cfg_compare_obs ?bi" and loc: "cfg_obs_data_loc ?bi = Some ''/data''"
    by (simp_all add: ex_basic_info_def)
  have l: "load_yaml ex_env (defaults_file ex_env ?bi) = Inr (YMap ex_table)"
    by code_simp
  have v: "''TA'' \<in> set (diag_var_list st)"
    by (simp add: st(2))
  have r: "map_of ex_table (YStr ''TA'') = Some (YMap [(YStr ''obs_file'', YStr ''ta.nc'')])"
    by code_simp
  have f: "map_of [(YStr ''obs_file'', YStr ''ta.nc'')] (YStr ''obs_file'') = Some (YStr ''ta.nc'')"
    by simp
  have n: "\<not> is_file ex_env (parse_path ''ta.nc'')"
    by code_simp
  have y: "is_file ex_env (path_join (parse_path ''/data'') (parse_path ''ta.nc''))"
    by code_simp
  have j: "path_join (parse_path ''/data'') (parse_path ''ta.nc'') = parse_path ''/data/ta.nc''"
    by code_simp
  have d: "''/data'' \<noteq> []"
    by simp
  note t = obs_file_search_order [OF st(1) bi c l v r f]
  from t have t1: "is_file_calls st
         = concat (map (var_tests ex_env (Some ''/data'') (YMap ex_table)) (diag_var_list st))"
    by (simp only: loc)
  from t have "\<forall>d. \<not> is_file ex_env (parse_path ''ta.nc'') \<and> cfg_obs_data_loc ?bi = Some d \<and> d \<noteq> [] \<longrightarrow>
          var_tests ex_env (cfg_obs_data_loc ?bi) (YMap ex_table) ''TA''
            = [parse_path ''ta.nc'', path_join (parse_path d) (parse_path ''ta.nc'')]
          \<and> (\<not> is_absolute (parse_path ''ta.nc'') \<longrightarrow>
                path_join (parse_path d) (parse_path ''ta.nc'')
                  = \<lparr>path_root = path_root (parse_path d),
                     path_tail = path_tail (parse_path d) @ path_tail (parse_path ''ta.nc'')\<rparr>)
          \<and> map_option obs_file (map_of (var_obs_dict st) ''TA'')
              = (if is_file ex_env (path_join (parse_path d) (parse_path ''ta.nc''))
                 then Some (path_join (parse_path d) (parse_path ''ta.nc'')) else None)"
    by (elim conjE)
  from this [rule_format, of "''/data''", OF conjI [OF n conjI [OF loc d]]]
  have t2: "var_tests ex_env (Some ''/data'') (YMap ex_table) ''TA''
         = [parse_path ''ta.nc'', path_join (parse_path ''/data'') (parse_path ''ta.nc'')]"
    and t3: "map_option obs_file (map_of (var_obs_dict st) ''TA'')
         = Some (path_join (parse_path ''/data'') (parse_path ''ta.nc''))"
    using y by (simp_all only: loc if_True)
  note all = conjI [OF st(1) conjI [OF st(2) conjI [OF st(3) conjI [OF n conjI [OF y conjI [OF j
         conjI [OF t1 conjI [OF t2 t3]]]]]]]]
  show ?thesis by (rule exI [where x = st]) (rule all)
qed

subsection \<open>The accessors\<close>

text \<open>
  Claim C4 says that what an accessor returns is a defensive copy: whatever the caller
  does to it, the attributes of the object, nested records included, stay as they were.
  The accessors return \<open>copy.copy\<close> of the attribute, a new outer container holding the
  very same inner objects. In the example the caller takes \<open>var_obs_dict\<close>, gets a
  dictionary that is not the attribute, and assigns to \<open>obs_name\<close> in the record of \<open>TS\<close>
  found there: the record inside \<open>__var_obs_dict\<close> has changed with it.
\<close>
theorem shallow_copy_shares_records:
  "case init ex_env (ex_config True True None [''TS'']) of
     Inl e \<Rightarrow> False
   | Inr st \<Rightarrow>
      (case store_obj st [] of (self, h0) \<Rightarrow>
       (case var_obs_dict_property self h0 of (d, h1) \<Rightarrow>
        (case store_getitem d ''TS'' h1 of
           Inl e \<Rightarrow> False
         | Inr rec \<Rightarrow>
            (case store_setitem rec ''obs_name'' (Imm (YStr ''changed'')) h1 of
               Inl e \<Rightarrow> False
             | Inr h2 \<Rightarrow>
                 d \<noteq> attr_var_obs_dict self
                 \<and> view_of 2 h0 (attr_var_obs_dict self) = VDict [(YStr ''TS'', ts_record ''TS.nc'')]
                 \<and> view_of 2 h2 (attr_var_obs_dict self) = VDict [(YStr ''TS'', ts_record ''changed'')]))))"
  by code_simp

text \<open>
  An assignment to a key of the returned dictionary itself does not reach the attribute.
\<close>

lemma copy_protects_top_level:
  "case init ex_env (ex_config True True None [''TS'']) of
     Inl e \<Rightarrow> False
   | Inr st \<Rightarrow>
      (case store_obj st [] of (self, h0) \<Rightarrow>
       (case var_obs_dict_property self h0 of (d, h1) \<Rightarrow>
        (case store_setitem d ''TS'' (Imm YNull) h1 of
           Inl e \<Rightarrow> False
         | Inr h2 \<Rightarrow>
             view_of 2 h2 d = VDict [(YStr ''TS'', VImm YNull)]
             \<and> view_of 2 h2 (attr_var_obs_dict self) = view_of 2 h0 (attr_var_obs_dict self))))"
  by code_simp

text \<open>The records of the defaults table are shared in the same way.\<close>

lemma variable_defaults_copy_shares_records:
  "case init ex_env (ex_config True False None [''TS'']) of
     Inl e \<Rightarrow> False
   | Inr st \<Rightarrow>
      (case store_obj st [] of (self, h0) \<Rightarrow>
       (case variable_defaults_property self h0 of (d, h1) \<Rightarrow>
        (case store_getitem d ''TS'' h1 of
           Inl e \<Rightarrow> False
         | Inr rec \<Rightarrow>
            (case store_setitem rec ''obs_file'' (Imm (YStr ''changed'')) h1 of
               Inl e \<Rightarrow> False
             | Inr h2 \<Rightarrow>
                 (case store_getitem (attr_variable_defaults self) ''TS'' h2 of
                    Inl e \<Rightarrow> False
                  | Inr rec' \<Rightarrow>
                      view_of 1 h0 rec' = VDict [(YStr ''obs_file'', VImm (YStr ''/obs/TS.nc''))]
                      \<and> view_of 1 h2 rec' = VDict [(YStr ''obs_file'', VImm (YStr ''changed''))])))))"
  by code_simp

end
